theory Spec2Isabelle
  imports Complex_Main "HOL-Library.Multiset"
begin

section \<open>JavaScript values\<close>

text \<open>
  The chatbot core is dynamically typed: message contents, knowledge-base entries and
  restored histories are arbitrary JavaScript values. They are modelled by the datatype
  \<open>js\<close>: \<open>null\<close>, booleans, numbers, strings, arrays and plain objects (objects whose
  prototype is \<open>Object.prototype\<close>, as object literals and \<open>JSON.parse\<close> build them), with
  their properties as an association list in insertion order. Functions are not values of
  the model. The value \<open>undefined\<close> only occurs as a missing argument or a missing
  property and is written \<open>None\<close> of an option type.
\<close>

subsection \<open>Numbers\<close>

text \<open>
  A number is a double. The model has the integers from \<open>-2^53\<close> to \<open>2^53\<close>, on which the
  arithmetic and the printing of doubles are exact, the negative zero, and the three
  values that are not finite. Other doubles (fractions, larger magnitudes) are not values
  of the model.
\<close>

typedef safe_int = "{n :: int. - 9007199254740992 \<le> n \<and> n \<le> 9007199254740992}"
  morphisms int_of safe_of
  by (intro exI [of _ 0]) simp

setup_lifting type_definition_safe_int

text \<open>The number \<open>n\<close>, for \<open>n\<close> from \<open>-2^53\<close> to \<open>2^53\<close>; every use below stays in that range.\<close>

lift_definition to_safe :: "int \<Rightarrow> safe_int"
  is "\<lambda>n. if - 9007199254740992 \<le> n \<and> n \<le> 9007199254740992 then n else 0"
  by simp

instantiation safe_int :: equal
begin

definition equal_safe_int :: "safe_int \<Rightarrow> safe_int \<Rightarrow> bool" where
  "equal_safe_int a b = (int_of a = int_of b)"

instance
  by standard (simp add: equal_safe_int_def int_of_inject)

end

datatype number = Fin safe_int | NegZero | NaN | PosInf | NegInf

text \<open>
  \<open>x + 1\<close>, the value \<open>x++\<close> stores: exact below \<open>2^53\<close>; at \<open>2^53\<close> the sum \<open>2^53 + 1\<close> is no
  double and rounds back to \<open>2^53\<close>.
\<close>

fun increment :: "number \<Rightarrow> number" where
  "increment (Fin n) =
     (if int_of n = 9007199254740992 then Fin n else Fin (to_safe (int_of n + 1)))"
| "increment NegZero = Fin (to_safe 1)"
| "increment NaN = NaN"
| "increment PosInf = PosInf"
| "increment NegInf = NegInf"

datatype js =
    JNull
  | JBool bool
  | JNum number
  | JStr string
  | JArr "js list"
  | JObj "(string \<times> js) list"

text \<open>The value of an integer literal in the safe range.\<close>

definition js_int :: "int \<Rightarrow> js" where
  "js_int n = JNum (Fin (to_safe n))"

text \<open>
  Truthiness: \<open>!v\<close> holds for \<open>null\<close>, \<open>false\<close>, \<open>0\<close>, \<open>-0\<close>, \<open>NaN\<close> and the empty string.
\<close>

fun falsy :: "js \<Rightarrow> bool" where
  "falsy JNull = True"
| "falsy (JBool b) = (\<not> b)"
| "falsy (JNum (Fin n)) = (int_of n = 0)"
| "falsy (JNum NegZero) = True"
| "falsy (JNum NaN) = True"
| "falsy (JNum x) = False"
| "falsy (JStr s) = (s = [])"
| "falsy (JArr xs) = False"
| "falsy (JObj kvs) = False"

subsection \<open>Number to string\<close>

definition digit_char :: "nat \<Rightarrow> char" where
  "digit_char d = char_of (48 + d)"

fun show_nat :: "nat \<Rightarrow> string" where
  "show_nat n = (if n < 10 then [digit_char n] else show_nat (n div 10) @ [digit_char (n mod 10)])"

declare show_nat.simps [simp del]

definition show_int :: "int \<Rightarrow> string" where
  "show_int i = (if i < 0 then CHR ''-'' # show_nat (nat (- i)) else show_nat (nat i))"

text \<open>
  \<open>String(x)\<close> of a number, also what a template literal prints: the decimal digits of
  an integer of the model, \<open>0\<close> for the negative zero, and the names of the other three
  values.
\<close>

fun Number_toString :: "number \<Rightarrow> string" where
  "Number_toString (Fin n) = show_int (int_of n)"
| "Number_toString NegZero = ''0''"
| "Number_toString NaN = ''NaN''"
| "Number_toString PosInf = ''Infinity''"
| "Number_toString NegInf = ''-Infinity''"

text \<open>\<open>xs.join(sep)\<close> on a list of strings.\<close>

fun join :: "string \<Rightarrow> string list \<Rightarrow> string" where
  "join sep [] = []"
| "join sep [x] = x"
| "join sep (x # y # ys) = x @ sep @ join sep (y # ys)"

subsection \<open>String conversion\<close>

datatype error = Error string | TypeError string

text \<open>The results of a list of conversions made in order: the first exception ends them.\<close>

fun collect :: "(error + 'a) list \<Rightarrow> error + 'a list" where
  "collect [] = Inr []"
| "collect (Inl e # rs) = Inl e"
| "collect (Inr x # rs) = (case collect rs of Inl e \<Rightarrow> Inl e | Inr xs \<Rightarrow> Inr (x # xs))"

text \<open>
  \<open>String(v)\<close>. Primitives print as themselves. An array joins the strings of its
  elements with commas, a \<open>null\<close> element printing as the empty string. An object is
  converted through its \<open>toString\<close> property: a plain object inherits the one that prints
  \<open>[object Object]\<close>; an own property \<open>toString\<close> hides it, and since no value of the
  model can be called, the conversion falls through \<open>valueOf\<close>, which yields no
  primitive, and throws a \<open>TypeError\<close>.
\<close>

fun String_js :: "js \<Rightarrow> error + string" where
  "String_js JNull = Inr ''null''"
| "String_js (JBool b) = Inr (if b then ''true'' else ''false'')"
| "String_js (JNum x) = Inr (Number_toString x)"
| "String_js (JStr s) = Inr s"
| "String_js (JArr xs) =
     (case collect (map (\<lambda>x. if x = JNull then Inr [] else String_js x) xs) of
        Inl e \<Rightarrow> Inl e
      | Inr strs \<Rightarrow> Inr (join '','' strs))"
| "String_js (JObj kvs) =
     (if ''toString'' \<in> set (map fst kvs)
      then Inl (TypeError ''Cannot convert object to primitive value'')
      else Inr ''[object Object]'')"

section \<open>Strings\<close>

text \<open>
  A string is the list of its code units, each of them a \<open>char\<close>: the model covers the
  strings over U+0000 to U+00FF, and the functions below treat those code units as
  JavaScript does.
\<close>

definition code_unit :: "char \<Rightarrow> nat" where
  "code_unit c = of_char c"

text \<open>\<open>\w\<close> of a regular expression: \<open>[A-Za-z0-9_]\<close>.\<close>

definition is_word_char :: "char \<Rightarrow> bool" where
  "is_word_char c =
     (let n = code_unit c
      in (48 \<le> n \<and> n \<le> 57) \<or> (65 \<le> n \<and> n \<le> 90) \<or> n = 95 \<or> (97 \<le> n \<and> n \<le> 122))"

text \<open>
  White space and line terminators among the code units up to U+00FF: tab, line feed,
  vertical tab, form feed, carriage return, space, no-break space. It is the class \<open>\s\<close>
  and what \<open>trim\<close> strips.
\<close>

definition is_space :: "char \<Rightarrow> bool" where
  "is_space c = (let n = code_unit c in (9 \<le> n \<and> n \<le> 13) \<or> n = 32 \<or> n = 160)"

text \<open>\<open>toLowerCase\<close>: A-Z, and the Latin-1 capitals U+00C0 to U+00DE except U+00D7.\<close>

definition toLowerCase_char :: "char \<Rightarrow> char" where
  "toLowerCase_char c =
     (let n = code_unit c
      in if (65 \<le> n \<and> n \<le> 90) \<or> (192 \<le> n \<and> n \<le> 222 \<and> n \<noteq> 215) then char_of (n + 32) else c)"

definition toLowerCase :: "string \<Rightarrow> string" where
  "toLowerCase s = map toLowerCase_char s"

definition trim :: "string \<Rightarrow> string" where
  "trim s = rev (dropWhile is_space (rev (dropWhile is_space s)))"

text \<open>
  The canonical form a regular expression with the flag \<open>i\<close> compares: the upper-case
  code unit, which for U+00FF and U+00B5 lies beyond U+00FF, and the code unit itself
  where upper-casing yields none of its own (U+00DF).
\<close>

definition canonicalize :: "char \<Rightarrow> nat" where
  "canonicalize c =
     (let n = code_unit c
      in if (97 \<le> n \<and> n \<le> 122) \<or> (224 \<le> n \<and> n \<le> 254 \<and> n \<noteq> 247) then n - 32
         else if n = 255 then 376
         else if n = 181 then 924
         else n)"

text \<open>\<open>text.includes(kw)\<close>.\<close>

fun str_includes :: "string \<Rightarrow> string \<Rightarrow> bool" where
  "str_includes [] kw = (kw = [])"
| "str_includes (c # cs) kw = (take (length kw) (c # cs) = kw \<or> str_includes cs kw)"

text \<open>
  \<open>new RegExp('\\b' + _escapeRegex(kw) + '\\b', 'i').test(text)\<close>. The escaping makes the
  keyword match literally, so the test asks for a position where the keyword stands, up
  to case, between two word boundaries. A word boundary is a position with a word
  character on exactly one side.
\<close>

definition is_word_at :: "string \<Rightarrow> nat \<Rightarrow> bool" where
  "is_word_at t p = (p < length t \<and> is_word_char (t ! p))"

definition word_boundary :: "string \<Rightarrow> nat \<Rightarrow> bool" where
  "word_boundary t p = ((0 < p \<and> is_word_at t (p - 1)) \<noteq> is_word_at t p)"

definition matches_at :: "string \<Rightarrow> string \<Rightarrow> nat \<Rightarrow> bool" where
  "matches_at t kw i =
     (i + length kw \<le> length t \<and>
      word_boundary t i \<and>
      map canonicalize (take (length kw) (drop i t)) = map canonicalize kw \<and>
      word_boundary t (i + length kw))"

definition regex_word_test :: "string \<Rightarrow> string \<Rightarrow> bool" where
  "regex_word_test kw t = list_ex (matches_at t kw) [0..<Suc (length t)]"

text \<open>
  \<open>s.split(/[\s,;]+/)\<close>: the pieces between the maximal runs of delimiters; a leading or
  trailing run leaves an empty piece.
\<close>

fun split_runs :: "(char \<Rightarrow> bool) \<Rightarrow> string \<Rightarrow> bool \<Rightarrow> string \<Rightarrow> string list" where
  "split_runs d cur in_run [] = [cur]"
| "split_runs d cur in_run (c # cs) =
     (if d c then (if in_run then split_runs d cur True cs else cur # split_runs d [] True cs)
      else split_runs d (cur @ [c]) False cs)"

definition is_keyword_delimiter :: "char \<Rightarrow> bool" where
  "is_keyword_delimiter c = (is_space c \<or> c = CHR '','' \<or> c = CHR '';'')"

section \<open>JSON text\<close>

subsection \<open>\<open>JSON.stringify\<close>\<close>

definition hex_char :: "nat \<Rightarrow> char" where
  "hex_char d = (if d < 10 then char_of (48 + d) else char_of (87 + d))"

text \<open>
  The quoted form of one code unit: the quotation mark (34) and the backslash (92) are
  escaped, the control characters print as their short escapes or as \<open>\u00XX\<close>.
\<close>

definition escape_char :: "char \<Rightarrow> string" where
  "escape_char c =
     (let n = code_unit c
      in if n = 34 then [CHR 0x5C, CHR 0x22]
         else if n = 92 then [CHR 0x5C, CHR 0x5C]
         else if n = 8 then [CHR 0x5C, CHR ''b'']
         else if n = 12 then [CHR 0x5C, CHR ''f'']
         else if n = 10 then [CHR 0x5C, CHR ''n'']
         else if n = 13 then [CHR 0x5C, CHR ''r'']
         else if n = 9 then [CHR 0x5C, CHR ''t'']
         else if n < 32 then [CHR 0x5C, CHR ''u'', CHR ''0'', CHR ''0'', hex_char (n div 16), hex_char (n mod 16)]
         else [c])"

definition quote :: "string \<Rightarrow> string" where
  "quote s = CHR 0x22 # concat (map escape_char s) @ [CHR 0x22]"

text \<open>
  \<open>JSON.stringify\<close> on the values of the model: the negative zero is written \<open>0\<close>,
  \<open>NaN\<close> and the infinities are written \<open>null\<close>.
\<close>

fun JSON_stringify :: "js \<Rightarrow> string" where
  "JSON_stringify JNull = ''null''"
| "JSON_stringify (JBool b) = (if b then ''true'' else ''false'')"
| "JSON_stringify (JNum (Fin n)) = show_int (int_of n)"
| "JSON_stringify (JNum NegZero) = ''0''"
| "JSON_stringify (JNum x) = ''null''"
| "JSON_stringify (JStr s) = quote s"
| "JSON_stringify (JArr xs) = ''['' @ join '','' (map JSON_stringify xs) @ '']''"
| "JSON_stringify (JObj kvs) =
     ''{'' @ join '','' (map (\<lambda>kv. quote (fst kv) @ '':'' @ JSON_stringify (snd kv)) kvs) @ ''}''"

subsection \<open>\<open>JSON.parse\<close>\<close>

text \<open>
  The parser reads the text one code unit at a time. Its state is what it expects next
  and a stack of the containers that are still open. Number tokens with a fraction or an
  exponent or with a magnitude above \<open>2^53\<close>, and \<open>\u\<close> escapes beyond U+00FF, denote
  values outside \<open>js\<close>; the parser fails on them, as it does on a syntax error.
\<close>

datatype frame =
    FTop "js option"
  | FArr "js list"
  | FObj "(string \<times> js) list" string

datatype mode =
    MValue
  | MValueOrEnd
  | MKeyOrEnd
  | MKey
  | MColon
  | MAfter
  | MStr bool string
  | MEsc bool string
  | MUni bool string nat nat
  | MLit string js
  | MMinus
  | MZero bool
  | MDigits bool nat
  | MFail

type_synonym pstate = "mode \<times> frame list"

definition is_json_space :: "char \<Rightarrow> bool" where
  "is_json_space c = (let n = code_unit c in n = 32 \<or> n = 9 \<or> n = 10 \<or> n = 13)"

definition is_digit :: "char \<Rightarrow> bool" where
  "is_digit c = (48 \<le> code_unit c \<and> code_unit c \<le> 57)"

definition digit_val :: "char \<Rightarrow> nat" where
  "digit_val c = code_unit c - 48"

definition hex_val :: "char \<Rightarrow> nat option" where
  "hex_val c =
     (let n = code_unit c
      in if 48 \<le> n \<and> n \<le> 57 then Some (n - 48)
         else if 97 \<le> n \<and> n \<le> 102 then Some (n - 87)
         else if 65 \<le> n \<and> n \<le> 70 then Some (n - 55)
         else None)"

text \<open>A repeated property name keeps its place and takes the later value.\<close>

fun obj_put :: "(string \<times> js) list \<Rightarrow> string \<Rightarrow> js \<Rightarrow> (string \<times> js) list" where
  "obj_put [] k v = [(k, v)]"
| "obj_put ((k', v') # kvs) k v = (if k' = k then (k, v) # kvs else (k', v') # obj_put kvs k v)"

text \<open>A finished value goes to the container on top of the stack.\<close>

fun deliver :: "js \<Rightarrow> frame list \<Rightarrow> pstate" where
  "deliver v (FTop None # st) = (MAfter, FTop (Some v) # st)"
| "deliver v (FArr xs # st) = (MAfter, FArr (xs @ [v]) # st)"
| "deliver v (FObj kvs k # st) = (MAfter, FObj (obj_put kvs k v) [] # st)"
| "deliver v st = (MFail, st)"

text \<open>After a value: a comma, the end of the open container, or white space.\<close>

fun step_after :: "frame list \<Rightarrow> char \<Rightarrow> pstate" where
  "step_after st c =
     (if is_json_space c then (MAfter, st)
      else if c = CHR '','' then
        (case st of FArr xs # r \<Rightarrow> (MValue, st) | FObj kvs k # r \<Rightarrow> (MKey, st) | _ \<Rightarrow> (MFail, st))
      else if c = CHR '']'' then
        (case st of FArr xs # r \<Rightarrow> deliver (JArr xs) r | _ \<Rightarrow> (MFail, st))
      else if c = CHR ''}'' then
        (case st of FObj kvs k # r \<Rightarrow> deliver (JObj kvs) r | _ \<Rightarrow> (MFail, st))
      else (MFail, st))"

text \<open>Where a value must start.\<close>

definition step_value :: "frame list \<Rightarrow> char \<Rightarrow> pstate" where
  "step_value st c =
     (if is_json_space c then (MValue, st)
      else if code_unit c = 34 then (MStr False [], st)
      else if c = CHR ''['' then (MValueOrEnd, FArr [] # st)
      else if c = CHR ''{'' then (MKeyOrEnd, FObj [] [] # st)
      else if c = CHR ''t'' then (MLit ''rue'' (JBool True), st)
      else if c = CHR ''f'' then (MLit ''alse'' (JBool False), st)
      else if c = CHR ''n'' then (MLit ''ull'' JNull, st)
      else if c = CHR ''-'' then (MMinus, st)
      else if c = CHR ''0'' then (MZero False, st)
      else if is_digit c then (MDigits False (digit_val c), st)
      else (MFail, st))"

text \<open>The value of a number token from its sign and its digits.\<close>

definition number_value :: "bool \<Rightarrow> nat \<Rightarrow> js option" where
  "number_value neg n =
     (if int n > 9007199254740992 then None
      else if neg \<and> n = 0 then Some (JNum NegZero)
      else Some (js_int (if neg then - int n else int n)))"

text \<open>A number token ends at the first code unit that cannot continue it.\<close>

definition end_number :: "js option \<Rightarrow> frame list \<Rightarrow> char \<Rightarrow> pstate" where
  "end_number value st c =
     (case value of
        None \<Rightarrow> (MFail, st)
      | Some v \<Rightarrow>
          (case deliver v st of
             (MAfter, st') \<Rightarrow> step_after st' c
           | other \<Rightarrow> (MFail, st)))"

fun step :: "pstate \<Rightarrow> char \<Rightarrow> pstate" where
  "step (MValue, st) c = step_value st c"
| "step (MValueOrEnd, st) c =
     (if is_json_space c then (MValueOrEnd, st)
      else if c = CHR '']'' then step_after st c
      else step_value st c)"
| "step (MKeyOrEnd, st) c =
     (if is_json_space c then (MKeyOrEnd, st)
      else if c = CHR ''}'' then step_after st c
      else if code_unit c = 34 then (MStr True [], st)
      else (MFail, st))"
| "step (MKey, st) c =
     (if is_json_space c then (MKey, st)
      else if code_unit c = 34 then (MStr True [], st)
      else (MFail, st))"
| "step (MColon, st) c =
     (if is_json_space c then (MColon, st)
      else if c = CHR '':'' then (MValue, st)
      else (MFail, st))"
| "step (MAfter, st) c = step_after st c"
| "step (MStr is_key acc, st) c =
     (if code_unit c = 34 then
        (if is_key
         then (case st of FObj kvs k # r \<Rightarrow> (MColon, FObj kvs acc # r) | _ \<Rightarrow> (MFail, st))
         else deliver (JStr acc) st)
      else if code_unit c = 92 then (MEsc is_key acc, st)
      else if code_unit c < 32 then (MFail, st)
      else (MStr is_key (acc @ [c]), st))"
| "step (MEsc is_key acc, st) c =
     (if code_unit c = 34 \<or> code_unit c = 92 \<or> c = CHR ''/'' then (MStr is_key (acc @ [c]), st)
      else if c = CHR ''b'' then (MStr is_key (acc @ [CHR 0x08]), st)
      else if c = CHR ''f'' then (MStr is_key (acc @ [CHR 0x0C]), st)
      else if c = CHR ''n'' then (MStr is_key (acc @ [CHR 0x0A]), st)
      else if c = CHR ''r'' then (MStr is_key (acc @ [CHR 0x0D]), st)
      else if c = CHR ''t'' then (MStr is_key (acc @ [CHR 0x09]), st)
      else if c = CHR ''u'' then (MUni is_key acc 4 0, st)
      else (MFail, st))"
| "step (MUni is_key acc n v, st) c =
     (case hex_val c of
        None \<Rightarrow> (MFail, st)
      | Some h \<Rightarrow>
          (let v' = v * 16 + h
           in if n = 1 then (if v' < 256 then (MStr is_key (acc @ [char_of v']), st) else (MFail, st))
              else (MUni is_key acc (n - 1) v', st)))"
| "step (MLit rest v, st) c =
     (case rest of
        [] \<Rightarrow> (MFail, st)
      | r # rs \<Rightarrow> if c = r then (if rs = [] then deliver v st else (MLit rs v, st)) else (MFail, st))"
| "step (MMinus, st) c =
     (if c = CHR ''0'' then (MZero True, st)
      else if is_digit c then (MDigits True (digit_val c), st)
      else (MFail, st))"
| "step (MZero neg, st) c =
     (if is_digit c \<or> c = CHR ''.'' \<or> c = CHR ''e'' \<or> c = CHR ''E'' then (MFail, st)
      else end_number (number_value neg 0) st c)"
| "step (MDigits neg n, st) c =
     (if is_digit c then (MDigits neg (n * 10 + digit_val c), st)
      else if c = CHR ''.'' \<or> c = CHR ''e'' \<or> c = CHR ''E'' then (MFail, st)
      else end_number (number_value neg n) st c)"
| "step (MFail, st) c = (MFail, st)"

text \<open>At the end of the text one complete value must have been read.\<close>

fun finish :: "pstate \<Rightarrow> js option" where
  "finish (MAfter, [FTop (Some v)]) = Some v"
| "finish (MZero neg, [FTop None]) = number_value neg 0"
| "finish (MDigits neg n, [FTop None]) = number_value neg n"
| "finish other = None"

definition JSON_parse :: "string \<Rightarrow> js option" where
  "JSON_parse text = finish (foldl step (MValue, [FTop None]) text)"

section \<open>ConversationManager\<close>

text \<open>
  The fields of the class. \<open>messages\<close> holds whatever values were pushed or restored;
  a message created by \<open>addMessage\<close> is an object with the properties
  \<open>id\<close>, \<open>content\<close>, \<open>sender\<close>, \<open>timestamp\<close>, in this order.
\<close>

record conversation_manager =
  messages :: "js list"
  messageIdCounter :: number
  maxMessages :: int

definition MAX_MESSAGE_HISTORY :: int where
  "MAX_MESSAGE_HISTORY = 100"

text \<open>
  The constructor: \<open>options.maxMessages || MAX_MESSAGE_HISTORY\<close>, where a missing
  option and the option \<open>0\<close> both select the default.
\<close>

definition new_ConversationManager :: "int option \<Rightarrow> conversation_manager" where
  "new_ConversationManager opt_maxMessages =
     \<lparr> messages = [],
       messageIdCounter = Fin (to_safe 0),
       maxMessages = (case opt_maxMessages of
                        None \<Rightarrow> MAX_MESSAGE_HISTORY
                      | Some m \<Rightarrow> if m = 0 then MAX_MESSAGE_HISTORY else m) \<rparr>"

text \<open>
  \<open>_generateId\<close> increments the counter and formats the id from the clock reading
  \<open>now\<close> (the value of \<open>Date.now()\<close>, an integer of the safe range) and the new counter.
\<close>

definition generateId :: "conversation_manager \<Rightarrow> safe_int \<Rightarrow> string \<times> conversation_manager" where
  "generateId s now =
     (let s' = s\<lparr> messageIdCounter := increment (messageIdCounter s) \<rparr>
      in (''msg_'' @ Number_toString (Fin now) @ ''_'' @ Number_toString (messageIdCounter s'), s'))"

text \<open>
  \<open>_enforceMessageLimit\<close>: \<open>splice(0, excessCount)\<close> removes the oldest entries; a
  delete count beyond the length removes everything.
\<close>

definition enforceMessageLimit :: "conversation_manager \<Rightarrow> conversation_manager" where
  "enforceMessageLimit s =
     (if int (length (messages s)) > maxMessages s
      then (let excessCount = int (length (messages s)) - maxMessages s
            in s\<lparr> messages := drop (nat excessCount) (messages s) \<rparr>)
      else s)"

definition validSenders :: "js list" where
  "validSenders = [JStr ''user'', JStr ''bot'']"

text \<open>
  \<open>addMessage(message, sender, timestamp = null)\<close>. The two clock readings are the
  values of \<open>Date.now()\<close> in \<open>_generateId\<close> and in the timestamp default. The result is
  the returned message or the exception thrown, and the manager afterwards. The two
  validation errors are thrown before anything is assigned. The message object is built
  property by property: the id is generated first, so a \<open>TypeError\<close> of \<open>String(message)\<close>
  leaves the counter advanced and the history as it was.
\<close>

definition addMessage ::
  "conversation_manager \<Rightarrow> js option \<Rightarrow> js option \<Rightarrow> js option \<Rightarrow> safe_int \<Rightarrow> safe_int
     \<Rightarrow> (error + js) \<times> conversation_manager" where
  "addMessage s message sender timestamp now_id now_ts =
     (case message of
        None \<Rightarrow> (Inl (Error ''Message content is required''), s)
      | Some JNull \<Rightarrow> (Inl (Error ''Message content is required''), s)
      | Some m \<Rightarrow>
         (case sender of
            None \<Rightarrow> (Inl (Error ''Sender must be either \"user\" or \"bot\"''), s)
          | Some sd \<Rightarrow>
             if falsy sd \<or> sd \<notin> set validSenders
             then (Inl (Error ''Sender must be either \"user\" or \"bot\"''), s)
             else
               (let ts = (case timestamp of None \<Rightarrow> JNull | Some t \<Rightarrow> t);
                    (new_id, s1) = generateId s now_id
                in case String_js m of
                     Inl e \<Rightarrow> (Inl e, s1)
                   | Inr content \<Rightarrow>
                       (let messageObject =
                              JObj [(''id'', JStr new_id),
                                    (''content'', JStr content),
                                    (''sender'', sd),
                                    (''timestamp'', if ts \<noteq> JNull then ts else JNum (Fin now_ts))];
                            s2 = s1\<lparr> messages := messages s1 @ [messageObject] \<rparr>
                        in (Inr messageObject, enforceMessageLimit s2)))))"

definition setMaxMessages :: "conversation_manager \<Rightarrow> int \<Rightarrow> conversation_manager" where
  "setMaxMessages s limit =
     (if limit > 0 then enforceMessageLimit (s\<lparr> maxMessages := limit \<rparr>) else s)"

definition getHistory :: "conversation_manager \<Rightarrow> js list" where
  "getHistory s = messages s"

definition clear :: "conversation_manager \<Rightarrow> conversation_manager" where
  "clear s = s\<lparr> messages := [] \<rparr>"

text \<open>Property access \<open>obj.key\<close>; \<open>None\<close> is \<open>undefined\<close>.\<close>

fun get_prop :: "js \<Rightarrow> string \<Rightarrow> js option" where
  "get_prop (JObj kvs) k = map_of kvs k"
| "get_prop v k = None"

subsection \<open>\<open>serialize\<close> and \<open>restore\<close>\<close>

definition serialize :: "conversation_manager \<Rightarrow> string" where
  "serialize s =
     JSON_stringify (JObj [(''messages'', JArr (messages s)),
                           (''messageIdCounter'', JNum (messageIdCounter s))])"

text \<open>
  \<open>restore\<close>. A \<open>SyntaxError\<close> of \<open>JSON.parse\<close> and the \<open>TypeError\<close> of reading a property
  of \<open>null\<close> are both caught: the result is \<open>false\<close> and nothing was assigned.
\<close>

definition restore :: "conversation_manager \<Rightarrow> string \<Rightarrow> bool \<times> conversation_manager" where
  "restore s data =
     (case JSON_parse data of
        None \<Rightarrow> (False, s)
      | Some JNull \<Rightarrow> (False, s)
      | Some parsed \<Rightarrow>
          (let s1 = (case get_prop parsed ''messages'' of
                       Some (JArr ms) \<Rightarrow> s\<lparr> messages := ms \<rparr>
                     | _ \<Rightarrow> s);
               s2 = (case get_prop parsed ''messageIdCounter'' of
                       Some (JNum n) \<Rightarrow> s1\<lparr> messageIdCounter := n \<rparr>
                     | _ \<Rightarrow> s1)
           in (True, s2)))"

subsection \<open>Sequences of calls\<close>

text \<open>The arguments of one \<open>addMessage\<close> call, with its two clock readings.\<close>

record add_call =
  arg_message :: "js option"
  arg_sender :: "js option"
  arg_timestamp :: "js option"
  clock_id :: safe_int
  clock_ts :: safe_int

definition addMessage_call :: "conversation_manager \<Rightarrow> add_call \<Rightarrow> (error + js) \<times> conversation_manager" where
  "addMessage_call s c =
     addMessage s (arg_message c) (arg_sender c) (arg_timestamp c) (clock_id c) (clock_ts c)"

text \<open>
  A run of \<open>addMessage\<close> calls that stops at the first exception; it returns the message
  objects the calls returned, in call order, and the final manager.
\<close>

fun addMessages :: "conversation_manager \<Rightarrow> add_call list \<Rightarrow> error + (js list \<times> conversation_manager)" where
  "addMessages s [] = Inr ([], s)"
| "addMessages s (c # cs) =
     (case addMessage_call s c of
        (Inl e, s') \<Rightarrow> Inl e
      | (Inr m, s') \<Rightarrow>
         (case addMessages s' cs of
            Inl e \<Rightarrow> Inl e
          | Inr (ms, s'') \<Rightarrow> Inr (m # ms, s'')))"

text \<open>
  Operations of a session whose exceptions are caught by the caller. Each returns the
  messages it created and the manager afterwards.
\<close>

datatype cm_op = AddMessage add_call | Clear | SetMaxMessages int | Restore string

fun exec_op :: "conversation_manager \<Rightarrow> cm_op \<Rightarrow> js list \<times> conversation_manager" where
  "exec_op s (AddMessage c) =
     (case addMessage_call s c of (Inl e, s') \<Rightarrow> ([], s') | (Inr m, s') \<Rightarrow> ([m], s'))"
| "exec_op s Clear = ([], clear s)"
| "exec_op s (SetMaxMessages limit) = ([], setMaxMessages s limit)"
| "exec_op s (Restore data) = ([], snd (restore s data))"

fun run_ops :: "conversation_manager \<Rightarrow> cm_op list \<Rightarrow> js list \<times> conversation_manager" where
  "run_ops s [] = ([], s)"
| "run_ops s (op # ops) =
     (let (ms, s') = exec_op s op; (ms', s'') = run_ops s' ops in (ms @ ms', s''))"

section \<open>KnowledgeBase\<close>

record knowledge_base =
  kb_data :: "(string \<times> js) list"
  highConfidenceThreshold :: rat

definition HIGH_CONFIDENCE_THRESHOLD :: rat where
  "HIGH_CONFIDENCE_THRESHOLD = 85 / 100"

definition new_KnowledgeBase :: "(string \<times> js) list \<Rightarrow> rat option \<Rightarrow> knowledge_base" where
  "new_KnowledgeBase d opt_threshold =
     \<lparr> kb_data = d,
       highConfidenceThreshold = (case opt_threshold of
                                    None \<Rightarrow> HIGH_CONFIDENCE_THRESHOLD
                                  | Some t \<Rightarrow> if t = 0 then HIGH_CONFIDENCE_THRESHOLD else t) \<rparr>"

definition categories :: "knowledge_base \<Rightarrow> string list" where
  "categories kb = map fst (kb_data kb)"

text \<open>
  A search result. Relevance scores and the threshold are exact rationals: the scores
  are ratios of a multiple of one half and a keyword count, and the code only compares
  them; how doubles round them is outside the model. A missing \<open>field\<close> and the
  category \<open>null\<close> are \<open>None\<close>.
\<close>

record search_result =
  result_data :: js
  relevance :: rat
  category :: "string option"
  field :: "string option"

text \<open>\<open>_normalizeKeywords\<close>; the argument \<open>None\<close> is \<open>undefined\<close>.\<close>

fun normalizeKeywords :: "js option \<Rightarrow> string list" where
  "normalizeKeywords None = []"
| "normalizeKeywords (Some (JStr s)) =
     (if s = [] then []
      else filter (\<lambda>k. length k > 0)
             (map trim (split_runs is_keyword_delimiter [] False (toLowerCase s))))"
| "normalizeKeywords (Some (JArr ks)) =
     filter (\<lambda>k. length k > 0)
       (map (\<lambda>k. trim (toLowerCase k))
          (concat (map (\<lambda>k. case k of JStr s \<Rightarrow> [s] | _ \<Rightarrow> []) ks)))"
| "normalizeKeywords (Some v) = []"

text \<open>\<open>_itemToSearchText\<close>.\<close>

fun itemToSearchText :: "js \<Rightarrow> string" where
  "itemToSearchText (JStr s) = s"
| "itemToSearchText (JNum x) = Number_toString x"
| "itemToSearchText (JBool b) = (if b then ''true'' else ''false'')"
| "itemToSearchText (JArr xs) = join '' '' (map itemToSearchText xs)"
| "itemToSearchText (JObj kvs) = join '' '' (map (\<lambda>kv. itemToSearchText (snd kv)) kvs)"
| "itemToSearchText JNull = []"

text \<open>
  \<open>_calculateRelevance\<close>. The loop over the keywords is the fold of \<open>score_keyword\<close> on
  the pair \<open>(matchCount, totalWeight)\<close>.
\<close>

definition score_keyword :: "string \<Rightarrow> rat \<times> nat \<Rightarrow> string \<Rightarrow> rat \<times> nat" where
  "score_keyword searchText acc keyword =
     (case acc of (matchCount, totalWeight) \<Rightarrow>
        if length keyword < 2 then (matchCount, totalWeight)
        else if regex_word_test keyword searchText then (matchCount + 1, totalWeight + 1)
        else if str_includes searchText keyword then (matchCount + 1 / 2, totalWeight + 1)
        else (matchCount, totalWeight + 1))"

definition calculateRelevance :: "js \<Rightarrow> string list \<Rightarrow> rat" where
  "calculateRelevance item keywords =
     (if falsy item \<or> length keywords = 0 then 0
      else
        (let searchText = toLowerCase (itemToSearchText item)
         in if searchText = [] then 0
            else
              (case foldl (score_keyword searchText) (0, 0) keywords of
                 (matchCount, totalWeight) \<Rightarrow>
                   if totalWeight = 0 then 0 else matchCount / of_nat totalWeight)))"



text \<open>
  \<open>_searchInData\<close>. \<open>search_items\<close> is its loop over the items of one array (of the
  category itself, or of the property \<open>fld\<close> of an object category).
\<close>

fun search_items :: "string list \<Rightarrow> string option \<Rightarrow> string option \<Rightarrow> js list \<Rightarrow> search_result list" where
  "search_items keywords cat fld [] = []"
| "search_items keywords cat fld (item # items) =
     (let rel = calculateRelevance item keywords
      in if rel > 0
         then \<lparr> result_data = item, relevance = rel, category = cat, field = fld \<rparr>
                # search_items keywords cat fld items
         else search_items keywords cat fld items)"

fun search_nested :: "string list \<Rightarrow> string option \<Rightarrow> (string \<times> js) list \<Rightarrow> search_result list" where
  "search_nested keywords cat [] = []"
| "search_nested keywords cat ((key, v) # kvs) =
     (case v of
        JArr items \<Rightarrow> search_items keywords cat (Some key) items @ search_nested keywords cat kvs
      | _ \<Rightarrow> search_nested keywords cat kvs)"

definition searchInData :: "js \<Rightarrow> string list \<Rightarrow> string option \<Rightarrow> search_result list" where
  "searchInData d keywords cat =
     (case d of
        JArr items \<Rightarrow> search_items keywords cat None items
      | JObj kvs \<Rightarrow>
          (let rel = calculateRelevance d keywords
           in (if rel > 0
               then [\<lparr> result_data = d, relevance = rel, category = cat, field = None \<rparr>]
               else [])
              @ search_nested keywords cat kvs)
      | _ \<Rightarrow> [])"

text \<open>
  \<open>_searchInDataOptimized\<close>. Each loop returns the results it pushed and whether it
  left through the early \<open>return\<close>.
\<close>

fun search_items_opt ::
  "rat \<Rightarrow> bool \<Rightarrow> string list \<Rightarrow> string option \<Rightarrow> string option \<Rightarrow> js list
     \<Rightarrow> search_result list \<times> bool" where
  "search_items_opt threshold enable keywords cat fld [] = ([], False)"
| "search_items_opt threshold enable keywords cat fld (item # items) =
     (let rel = calculateRelevance item keywords
      in if rel > 0
         then (let r = \<lparr> result_data = item, relevance = rel, category = cat, field = fld \<rparr>
               in if enable \<and> rel \<ge> threshold then ([r], True)
                  else (case search_items_opt threshold enable keywords cat fld items of
                          (rs, stop) \<Rightarrow> (r # rs, stop)))
         else search_items_opt threshold enable keywords cat fld items)"

fun search_nested_opt ::
  "rat \<Rightarrow> bool \<Rightarrow> string list \<Rightarrow> string option \<Rightarrow> (string \<times> js) list
     \<Rightarrow> search_result list \<times> bool" where
  "search_nested_opt threshold enable keywords cat [] = ([], False)"
| "search_nested_opt threshold enable keywords cat ((key, v) # kvs) =
     (case v of
        JArr items \<Rightarrow>
          (case search_items_opt threshold enable keywords cat (Some key) items of
             (rs, stop) \<Rightarrow>
               if stop then (rs, True)
               else (case search_nested_opt threshold enable keywords cat kvs of
                       (rs', stop') \<Rightarrow> (rs @ rs', stop')))
      | _ \<Rightarrow> search_nested_opt threshold enable keywords cat kvs)"

definition searchInDataOptimized ::
  "knowledge_base \<Rightarrow> js option \<Rightarrow> string list \<Rightarrow> string option \<Rightarrow> bool \<Rightarrow> search_result list" where
  "searchInDataOptimized kb d keywords cat enableEarlyTermination =
     (case d of
        Some (JArr items) \<Rightarrow>
          fst (search_items_opt (highConfidenceThreshold kb) enableEarlyTermination keywords cat None items)
      | Some (JObj kvs) \<Rightarrow>
          (let rel = calculateRelevance (JObj kvs) keywords;
               r = \<lparr> result_data = JObj kvs, relevance = rel, category = cat, field = None \<rparr>
           in if rel > 0 \<and> enableEarlyTermination \<and> rel \<ge> highConfidenceThreshold kb then [r]
              else (if rel > 0 then [r] else [])
                   @ fst (search_nested_opt (highConfidenceThreshold kb) enableEarlyTermination keywords cat kvs))
      | _ \<Rightarrow> [])"

text \<open>
  \<open>Array.prototype.sort\<close> with the comparator \<open>b.relevance - a.relevance\<close>: a stable sort
  by descending relevance.
\<close>

definition sort_by_relevance :: "search_result list \<Rightarrow> search_result list" where
  "sort_by_relevance rs = sort_key (\<lambda>r. - relevance r) rs"

text \<open>
  \<open>search(keywords, options)\<close>. \<open>search_loop\<close> is the loop over the categories with the
  results pushed so far; the option \<open>earlyTermination\<close> is \<open>None\<close> when absent.
\<close>

fun search_loop ::
  "knowledge_base \<Rightarrow> string list \<Rightarrow> bool \<Rightarrow> search_result list \<Rightarrow> string list \<Rightarrow> search_result list" where
  "search_loop kb keywordArray enable results [] = sort_by_relevance results"
| "search_loop kb keywordArray enable results (cat # cats) =
     (let categoryData = map_of (kb_data kb) cat;
          categoryResults = searchInDataOptimized kb categoryData keywordArray (Some cat) enable;
          results' = results @ categoryResults
      in if enable \<and> length categoryResults > 0 \<and>
            find (\<lambda>r. relevance r \<ge> highConfidenceThreshold kb) categoryResults \<noteq> None
         then sort_by_relevance results'
         else search_loop kb keywordArray enable results' cats)"

definition search :: "knowledge_base \<Rightarrow> js option \<Rightarrow> bool option \<Rightarrow> search_result list" where
  "search kb keywords opt_earlyTermination =
     (let keywordArray = normalizeKeywords keywords
      in if length keywordArray = 0 then []
         else search_loop kb keywordArray (opt_earlyTermination \<noteq> Some False) [] (categories kb))"




section \<open>QueryProcessor: intent detection\<close>

text \<open>
  The table \<open>intentPatterns\<close>, in the order of its properties: for each intent its
  high-priority and its medium-priority patterns.
\<close>

definition intentPatterns :: "(string \<times> string list \<times> string list) list" where
  "intentPatterns =
   [(''experience'',
       [''experience'', ''career'', ''employment'', ''job history'', ''work history'',
        ''positions held'', ''professional background'', ''positions'', ''work experience''],
       [''work'', ''job'', ''worked'', ''working'', ''position'', ''role'', ''company'', ''amazon'',
        ''werp'', ''history'', ''background'', ''professional'', ''timeline'', ''years'', ''held'',
        ''jobs'']),
    (''skills'',
       [''skill'', ''skills'', ''technology'', ''technologies'', ''programming'',
        ''technical abilities'', ''expertise''],
       [''tech'', ''know'', ''language'', ''languages'', ''framework'', ''frameworks'', ''tool'',
        ''tools'', ''proficient'', ''capable'', ''ability'', ''abilities'', ''competent'', ''python'',
        ''javascript'', ''playwright'', ''selenium'', ''pytest'', ''aws'', ''cloud'']),
    (''projects'',
       [''project'', ''projects'', ''portfolio work'', ''what have you built'',
        ''what did you build'', ''framework development''],
       [''built'', ''build'', ''created'', ''developed'', ''development'', ''savings'', ''cost'',
        ''impact'', ''solutions'']),
    (''awards'',
       [''award'', ''awards'', ''recognition'', ''recognized'', ''honors'', ''prize'', ''prizes'',
        ''accomplishment'', ''accomplishments'', ''accolades''],
       [''achievement'', ''achievements'', ''honor'', ''won'', ''received'', ''innovation'',
        ''excellence'', ''leadership'']),
    (''contact'',
       [''contact'', ''email'', ''linkedin'', ''github'', ''reach out'', ''get in touch'',
        ''how to reach''],
       [''reach'', ''connect'', ''social'', ''message'', ''hire'', ''hiring'', ''location'', ''where'',
        ''based'', ''live'', ''located'', ''find'', ''touch'']),
    (''certifications'',
       [''certification'', ''certifications'', ''certified'', ''certificate'', ''certificates'',
        ''qualifications'', ''credentials'', ''credential''],
       [''course'', ''courses'', ''training'', ''learn'', ''learned'', ''education'',
        ''qualification'']),
    (''personal'',
       [''who are you'', ''about yourself'', ''introduce yourself'', ''introduction'', ''dinakaran''],
       [''who'', ''yourself'', ''introduce'', ''name'', ''summary'', ''overview'',
        ''describe yourself''])]"

text \<open>The weight one pattern adds to the score of its intent.\<close>

definition high_score :: "string \<Rightarrow> string \<Rightarrow> int" where
  "high_score normalizedQuery pattern =
     (if str_includes normalizedQuery pattern then 5
      else if regex_word_test pattern normalizedQuery then 4 else 0)"

definition medium_score :: "string \<Rightarrow> string \<Rightarrow> int" where
  "medium_score normalizedQuery pattern =
     (if regex_word_test pattern normalizedQuery then 2
      else if str_includes normalizedQuery pattern then 1 else 0)"

definition intent_score :: "string \<Rightarrow> string list \<times> string list \<Rightarrow> int" where
  "intent_score normalizedQuery patterns =
     (case patterns of (high, medium) \<Rightarrow>
        foldl (\<lambda>score pattern. score + medium_score normalizedQuery pattern)
          (foldl (\<lambda>score pattern. score + high_score normalizedQuery pattern) 0 high)
          medium)"

definition intent_scores :: "(string \<times> string list \<times> string list) list \<Rightarrow> string \<Rightarrow> (string \<times> int) list" where
  "intent_scores table normalizedQuery =
     map (\<lambda>entry. (fst entry, intent_score normalizedQuery (snd entry))) table"

text \<open>The loop that keeps the first intent with the highest score above 0.\<close>

definition max_step :: "int \<times> string \<Rightarrow> string \<times> int \<Rightarrow> int \<times> string" where
  "max_step acc entry =
     (case acc of (maxScore, detectedIntent) \<Rightarrow>
        case entry of (intent, score) \<Rightarrow>
          if score > maxScore then (score, intent) else (maxScore, detectedIntent))"

definition detectIntent_with :: "(string \<times> string list \<times> string list) list \<Rightarrow> string \<Rightarrow> string" where
  "detectIntent_with table q =
     (if q = [] then ''general''
      else
        (let normalizedQuery = trim (toLowerCase q);
             scores = intent_scores table normalizedQuery
         in case foldl max_step (0, ''general'') scores of
              (maxScore, detectedIntent) \<Rightarrow>
                if maxScore < 2 then ''general'' else detectedIntent))"

definition detectIntent :: "string \<Rightarrow> string" where
  "detectIntent q = detectIntent_with intentPatterns q"


section \<open>Decimal numerals are injective\<close>














section \<open>Properties of the ConversationManager\<close>





text \<open>The most recent \<open>n\<close> entries of a list, in their order.\<close>

definition keep_last :: "nat \<Rightarrow> 'a list \<Rightarrow> 'a list" where
  "keep_last n xs = drop (length xs - n) xs"

definition mk_id :: "safe_int \<Rightarrow> number \<Rightarrow> string" where
  "mk_id now counter = ''msg_'' @ Number_toString (Fin now) @ ''_'' @ Number_toString counter"


lemma keep_last_length: "length (keep_last n xs) \<le> n"
  by (simp add: keep_last_def)

lemma keep_last_snoc:
  "0 < n \<Longrightarrow> keep_last n (keep_last n xs @ [m]) = keep_last n (xs @ [m])"
proof (cases "length xs < n")
  case True
  then show ?thesis by (simp add: keep_last_def)
next
  case False
  assume "0 < n"
  with False have "length xs - n < length xs" by simp
  with False \<open>0 < n\<close> show ?thesis
    by (simp add: keep_last_def Suc_diff_le)
qed


lemma enforceMessageLimit_keep_last:
  "0 < maxMessages s \<Longrightarrow>
   messages (enforceMessageLimit s) = keep_last (nat (maxMessages s)) (messages s)"
  by (auto simp: enforceMessageLimit_def keep_last_def Let_def nat_diff_distrib')

lemma enforceMessageLimit_fields:
  "maxMessages (enforceMessageLimit s) = maxMessages s"
  "messageIdCounter (enforceMessageLimit s) = messageIdCounter s"
  by (simp_all add: enforceMessageLimit_def Let_def)

text \<open>The state after \<open>_generateId\<close> and the push of the message \<open>m\<close>.\<close>

definition pushed :: "conversation_manager \<Rightarrow> js \<Rightarrow> conversation_manager" where
  "pushed s m =
     enforceMessageLimit
       (s\<lparr> messageIdCounter := increment (messageIdCounter s), messages := messages s @ [m] \<rparr>)"

text \<open>What an \<open>addMessage\<close> that passed the two validations does.\<close>

lemma addMessage_valid:
  assumes "v \<noteq> JNull" and "\<not> falsy sd" and "sd \<in> set validSenders"
  shows "addMessage s (Some v) (Some sd) timestamp now_id now_ts =
           (case String_js v of
              Inl e \<Rightarrow> (Inl e, s\<lparr> messageIdCounter := increment (messageIdCounter s) \<rparr>)
            | Inr str \<Rightarrow>
                (let m = JObj [(''id'', JStr (mk_id now_id (increment (messageIdCounter s)))),
                               (''content'', JStr str),
                               (''sender'', sd),
                               (''timestamp'', case timestamp of
                                                 None \<Rightarrow> JNum (Fin now_ts)
                                               | Some JNull \<Rightarrow> JNum (Fin now_ts)
                                               | Some t \<Rightarrow> t)]
                 in (Inr m, pushed s m)))"
  using assms
  by (cases v; cases "String_js v")
     (auto simp: addMessage_def generateId_def mk_id_def pushed_def Let_def
           split: option.splits js.splits)

text \<open>What a successful \<open>addMessage\<close> returns and leaves behind.\<close>

lemma addMessage_Inr:
  assumes "addMessage s message sender timestamp now_id now_ts = (Inr m, s')"
  shows "\<exists>v sd ts str. message = Some v \<and> v \<noteq> JNull \<and> sender = Some sd \<and> sd \<in> set validSenders \<and>
           String_js v = Inr str \<and>
           m = JObj [(''id'', JStr (mk_id now_id (increment (messageIdCounter s)))),
                     (''content'', JStr str),
                     (''sender'', sd),
                     (''timestamp'', ts)] \<and>
           s' = pushed s m"
proof -
  from assms obtain v where v: "message = Some v" "v \<noteq> JNull"
    by (auto simp: addMessage_def split: option.splits js.splits)
  from assms v obtain sd where sd: "sender = Some sd" "\<not> falsy sd" "sd \<in> set validSenders"
    by (cases v; cases sender) (auto simp: addMessage_def split: if_splits)
  from assms show ?thesis
    unfolding v(1) sd(1) addMessage_valid [OF v(2) sd(2,3)]
    using v sd by (auto simp: Let_def split: sum.splits)
qed


lemma addMessage_call_state:
  assumes "addMessage_call s c = (Inr m, s')"
  shows "maxMessages s' = maxMessages s"
    and "messageIdCounter s' = increment (messageIdCounter s)"
    and "get_prop m ''id'' = Some (JStr (mk_id (clock_id c) (increment (messageIdCounter s))))"
    and "0 < maxMessages s \<Longrightarrow> messages s' = keep_last (nat (maxMessages s)) (messages s @ [m])"
proof -
  from assms obtain str sd ts where
    m: "m = JObj [(''id'', JStr (mk_id (clock_id c) (increment (messageIdCounter s)))),
                  (''content'', JStr str), (''sender'', sd), (''timestamp'', ts)]"
    and s': "s' = pushed s m"
    unfolding addMessage_call_def by (blast dest: addMessage_Inr)
  show "maxMessages s' = maxMessages s"
    by (simp add: s' pushed_def enforceMessageLimit_fields)
  show "messageIdCounter s' = increment (messageIdCounter s)"
    by (simp add: s' pushed_def enforceMessageLimit_fields)
  show "get_prop m ''id'' = Some (JStr (mk_id (clock_id c) (increment (messageIdCounter s))))"
    by (simp add: m)
  show "messages s' = keep_last (nat (maxMessages s)) (messages s @ [m])" if "0 < maxMessages s"
    using that by (simp add: s' pushed_def enforceMessageLimit_keep_last)
qed

lemma addMessages_Cons:
  assumes "addMessages s (c # cs) = Inr (created, s')"
  shows "\<exists>m s1 ms. addMessage_call s c = (Inr m, s1) \<and> addMessages s1 cs = Inr (ms, s') \<and>
           created = m # ms"
  using assms by (auto split: sum.splits prod.splits)

lemma addMessages_keep_last:
  assumes "0 < maxMessages s"
    and "messages s = keep_last (nat (maxMessages s)) earlier"
    and "addMessages s cs = Inr (created, s')"
  shows "maxMessages s' = maxMessages s \<and>
         messages s' = keep_last (nat (maxMessages s)) (earlier @ created)"
  using assms
proof (induction cs arbitrary: s earlier created)
  case Nil
  then show ?case by simp
next
  case (Cons c cs)
  from addMessages_Cons [OF Cons.prems(3)] obtain m s1 ms where
    one: "addMessage_call s c = (Inr m, s1)"
    and rest: "addMessages s1 cs = Inr (ms, s')"
    and created: "created = m # ms"
    by blast
  have cap: "maxMessages s1 = maxMessages s"
    using one by (rule addMessage_call_state)
  have "messages s1 = keep_last (nat (maxMessages s)) (messages s @ [m])"
    using one Cons.prems(1) by (rule addMessage_call_state)
  also have "\<dots> = keep_last (nat (maxMessages s)) (earlier @ [m])"
    using Cons.prems(1) by (simp add: Cons.prems(2) keep_last_snoc)
  finally have inv: "messages s1 = keep_last (nat (maxMessages s1)) (earlier @ [m])"
    by (simp add: cap)
  have "maxMessages s' = maxMessages s1 \<and>
        messages s' = keep_last (nat (maxMessages s1)) ((earlier @ [m]) @ ms)"
    using Cons.prems(1) inv rest by (intro Cons.IH) (simp_all add: cap)
  then show ?case
    by (simp add: cap created)
qed

text \<open>Concrete calls, used to instantiate the theorems.\<close>

definition demo_call_a :: add_call where
  "demo_call_a = \<lparr> arg_message = Some (JStr ''hi''), arg_sender = Some (JStr ''user''),
                    arg_timestamp = None, clock_id = to_safe 1000, clock_ts = to_safe 1001 \<rparr>"

definition demo_call_b :: add_call where
  "demo_call_b = \<lparr> arg_message = Some (js_int 7), arg_sender = Some (JStr ''bot''),
                    arg_timestamp = Some (js_int 5), clock_id = to_safe 1000, clock_ts = to_safe 1003 \<rparr>"

text \<open>A call whose content has an own property \<open>toString\<close> that is no function.\<close>

definition demo_call_c :: add_call where
  "demo_call_c = \<lparr> arg_message = Some (JObj [(''toString'', js_int 1)]), arg_sender = Some (JStr ''user''),
                    arg_timestamp = None, clock_id = to_safe 1000, clock_ts = to_safe 1001 \<rparr>"

lemmas cm_eval = addMessage_call_def addMessage_def generateId_def enforceMessageLimit_def
        new_ConversationManager_def validSenders_def MAX_MESSAGE_HISTORY_def Let_def clear_def
        setMaxMessages_def demo_call_a_def demo_call_b_def demo_call_c_def js_int_def

lemmas num_eval = to_safe.rep_eq show_int_def show_nat.simps digit_char_def char_of_eq_iff
        take_bit_eq_mod

text \<open>
  Claim C3 (history cap). On a manager whose cap is a positive integer, after any run of
  successful \<open>addMessage\<close> calls (a run of at least one call, or any run when the history
  started within the cap) the history has at most \<open>maxMessages\<close> entries, and it is
  exactly the most recent \<open>maxMessages\<close> entries of the earlier history followed by the
  created messages, in insertion order.
\<close>

theorem history_cap:
  assumes "0 < maxMessages s"
    and "cs \<noteq> [] \<or> int (length (messages s)) \<le> maxMessages s"
    and "addMessages s cs = Inr (created, s')"
  shows "int (length (getHistory s')) \<le> maxMessages s' \<and>
         maxMessages s' = maxMessages s \<and>
         getHistory s' = keep_last (nat (maxMessages s)) (messages s @ created)"
proof -
  have kept: "maxMessages s' = maxMessages s \<and>
        messages s' = keep_last (nat (maxMessages s)) (messages s @ created)"
  proof (cases cs)
    case Nil
    with assms(2) have "messages s = keep_last (nat (maxMessages s)) (messages s)"
      using assms(1) by (simp add: keep_last_def)
    with assms(1) show ?thesis
      using assms(3) by (rule addMessages_keep_last)
  next
    case (Cons c cs')
    with addMessages_Cons [of s c cs' created s'] assms(3) obtain m s1 ms where
      one: "addMessage_call s c = (Inr m, s1)"
      and rest: "addMessages s1 cs' = Inr (ms, s')"
      and created: "created = m # ms"
      by blast
    have cap: "maxMessages s1 = maxMessages s"
      using one by (rule addMessage_call_state)
    have first: "messages s1 = keep_last (nat (maxMessages s1)) (messages s @ [m])"
      using addMessage_call_state(4) [OF one assms(1)] by (simp add: cap)
    have "maxMessages s' = maxMessages s1 \<and>
          messages s' = keep_last (nat (maxMessages s1)) ((messages s @ [m]) @ ms)"
      using assms(1) first rest by (intro addMessages_keep_last) (simp_all add: cap)
    then show ?thesis
      by (simp add: cap created)
  qed
  moreover have "length (keep_last (nat (maxMessages s)) (messages s @ created)) \<le> nat (maxMessages s)"
    by (rule keep_last_length)
  ultimately show ?thesis
    using assms(1) by (simp add: getHistory_def)
qed

theorem history_cap_witness:
  "0 < maxMessages (new_ConversationManager (Some 1)) \<and>
   [demo_call_a, demo_call_b] \<noteq> [] \<and>
   (\<exists>m1 m2 s'. addMessages (new_ConversationManager (Some 1)) [demo_call_a, demo_call_b] = Inr ([m1, m2], s') \<and>
       int (length (getHistory s')) \<le> 1 \<and> getHistory s' = [m2])"
proof -
  let ?s = "new_ConversationManager (Some 1)"
  have pos: "0 < maxMessages ?s" by (simp add: cm_eval)
  have some: "[demo_call_a, demo_call_b] \<noteq> [] \<or> int (length (messages ?s)) \<le> maxMessages ?s"
    by simp
  obtain m1 m2 s' where run: "addMessages ?s [demo_call_a, demo_call_b] = Inr ([m1, m2], s')"
    by (simp add: cm_eval)
  have cap: "maxMessages ?s = 1" by (simp add: cm_eval)
  from history_cap [OF pos some run]
  have "int (length (getHistory s')) \<le> 1 \<and> getHistory s' = [m2]"
    by (simp add: cap keep_last_def cm_eval)
  with pos run show ?thesis by blast
qed

subsection \<open>Message ids\<close>


text \<open>The ids of a list of messages.\<close>

definition ids_of :: "js list \<Rightarrow> js option list" where
  "ids_of ms = map (\<lambda>m. get_prop m ''id'') ms"





text \<open>
  The claim as it stands fails. \<open>restore\<close> is an operation of the class and overwrites the
  counter: after the text \<open>{"messageIdCounter":0}\<close> the next message repeats the id of the
  first. And the counter is a double: at \<open>2^53\<close> the increment no longer changes it, and
  two messages created in the same millisecond share their id.
\<close>

theorem id_uniqueness_counterexample:
  "ids_of (fst (run_ops (new_ConversationManager None)
      [AddMessage demo_call_a, Restore ''{\"messageIdCounter\":0}'', AddMessage demo_call_b]))
     = [Some (JStr ''msg_1000_1''), Some (JStr ''msg_1000_1'')] \<and>
   ids_of (fst (run_ops (new_ConversationManager None\<lparr> messageIdCounter := Fin (to_safe 9007199254740991) \<rparr>)
      [AddMessage demo_call_a, AddMessage demo_call_b, AddMessage demo_call_a]))
     = [Some (JStr ''msg_1000_9007199254740992''), Some (JStr ''msg_1000_9007199254740992''),
        Some (JStr ''msg_1000_9007199254740992'')]"
proof -
  have "JSON_parse ''{\"messageIdCounter\":0}'' = Some (JObj [(''messageIdCounter'', js_int 0)])"
    by code_simp
  then show ?thesis
    by (simp add: restore_def ids_of_def cm_eval num_eval)
qed

subsection \<open>The content of a message\<close>






text \<open>
  The claim as it stands fails at an object with an own property \<open>toString\<close> that is no
  function, such as \<open>{toString: 1}\<close>: the conversion throws a \<open>TypeError\<close>, so \<open>addMessage\<close>
  does not succeed; the history stays empty and the id counter has moved to 1.
\<close>

theorem addMessage_content_String_counterexample:
  "JObj [(''toString'', js_int 1)] \<noteq> JNull \<and>
   addMessage (new_ConversationManager None) (Some (JObj [(''toString'', js_int 1)]))
       (Some (JStr ''user'')) None (to_safe 10) (to_safe 11)
     = (Inl (TypeError ''Cannot convert object to primitive value''),
        new_ConversationManager None\<lparr> messageIdCounter := Fin (to_safe 1) \<rparr>) \<and>
   getHistory (new_ConversationManager None\<lparr> messageIdCounter := Fin (to_safe 1) \<rparr>) = []"
  by (simp add: cm_eval getHistory_def to_safe.rep_eq)

section \<open>Parsing what \<open>JSON.stringify\<close> printed\<close>










































definition demo_state :: conversation_manager where
  "demo_state =
     \<lparr> messages = [JObj [(''id'', JStr ''msg_1000_1''), (''content'', JStr ''say \"hi\"''),
                         (''sender'', JStr ''user''), (''timestamp'', js_int 1001)],
                   JObj [(''id'', JStr ''msg_1002_2''), (''content'', JStr ''7''),
                         (''sender'', JStr ''bot''), (''timestamp'', js_int (- 5))]],
       messageIdCounter = Fin (to_safe 2),
       maxMessages = 100 \<rparr>"

text \<open>A state that \<open>addMessage\<close> built from a timestamp that is not a number.\<close>

definition demo_state_nan :: conversation_manager where
  "demo_state_nan =
     snd (addMessage (new_ConversationManager None) (Some (JStr ''hi'')) (Some (JStr ''user''))
            (Some (JNum NaN)) (to_safe 1000) (to_safe 1001))"




text \<open>
  The claim as it stands fails on a history that \<open>addMessage\<close> itself builds: it stores
  whatever timestamp it is given, and the timestamp \<open>NaN\<close> is written \<open>null\<close> and comes
  back as \<open>null\<close>.
\<close>

theorem serialize_restore_roundtrip_counterexample:
  "getHistory demo_state_nan
     = [JObj [(''id'', JStr ''msg_1000_1''), (''content'', JStr ''hi''),
              (''sender'', JStr ''user''), (''timestamp'', JNum NaN)]] \<and>
   serialize demo_state_nan
     = ''{\"messages\":[{\"id\":\"msg_1000_1\",\"content\":\"hi\",\"sender\":\"user\",\"timestamp\":null}],\"messageIdCounter\":1}'' \<and>
   getHistory (snd (restore (new_ConversationManager None) (serialize demo_state_nan)))
     = [JObj [(''id'', JStr ''msg_1000_1''), (''content'', JStr ''hi''),
              (''sender'', JStr ''user''), (''timestamp'', JNull)]] \<and>
   getHistory (snd (restore (new_ConversationManager None) (serialize demo_state_nan)))
     \<noteq> getHistory demo_state_nan"
proof -
  have nan: "demo_state_nan =
     new_ConversationManager None
       \<lparr> messages := [JObj [(''id'', JStr ''msg_1000_1''), (''content'', JStr ''hi''),
                           (''sender'', JStr ''user''), (''timestamp'', JNum NaN)]],
         messageIdCounter := Fin (to_safe 1) \<rparr>"
    by (simp add: demo_state_nan_def cm_eval num_eval int_of_inject [symmetric])
  have printed: "serialize demo_state_nan
      = ''{\"messages\":[{\"id\":\"msg_1000_1\",\"content\":\"hi\",\"sender\":\"user\",\"timestamp\":null}],\"messageIdCounter\":1}''"
    unfolding nan
    by (simp add: serialize_def quote_def escape_char_def code_unit_def num_eval)
  have parsed: "JSON_parse ''{\"messages\":[{\"id\":\"msg_1000_1\",\"content\":\"hi\",\"sender\":\"user\",\"timestamp\":null}],\"messageIdCounter\":1}''
      = Some (JObj [(''messages'', JArr [JObj [(''id'', JStr ''msg_1000_1''), (''content'', JStr ''hi''),
              (''sender'', JStr ''user''), (''timestamp'', JNull)]]), (''messageIdCounter'', js_int 1)])"
    by code_simp
  have a: "getHistory demo_state_nan
     = [JObj [(''id'', JStr ''msg_1000_1''), (''content'', JStr ''hi''),
              (''sender'', JStr ''user''), (''timestamp'', JNum NaN)]]"
    by (simp add: nan getHistory_def)
  have b: "getHistory (snd (restore (new_ConversationManager None) (serialize demo_state_nan)))
     = [JObj [(''id'', JStr ''msg_1000_1''), (''content'', JStr ''hi''),
              (''sender'', JStr ''user''), (''timestamp'', JNull)]]"
    unfolding printed by (simp add: restore_def parsed getHistory_def js_int_def)
  show ?thesis
    using a b printed by simp
qed

text \<open>
  Claim C9 (restore), as amended. \<open>restore\<close> returns \<open>false\<close> exactly when the text does
  not parse or parses to \<open>null\<close>, and then the state is untouched. In every other case it
  returns \<open>true\<close>; the messages are replaced when the parsed value has an array as its
  \<open>messages\<close> property, the id counter when it has a number as its \<open>messageIdCounter\<close>
  property, and a component without such a property stays as it was.
\<close>

theorem restore_cases:
  "(fst (restore s data) = False) = (JSON_parse data = None \<or> JSON_parse data = Some JNull) \<and>
   (fst (restore s data) = False \<longrightarrow> snd (restore s data) = s) \<and>
   (\<forall>parsed. JSON_parse data = Some parsed \<and> parsed \<noteq> JNull \<longrightarrow>
      restore s data =
        (True, s\<lparr> messages := (case get_prop parsed ''messages'' of
                                   Some (JArr ms) \<Rightarrow> ms | _ \<Rightarrow> messages s),
                   messageIdCounter := (case get_prop parsed ''messageIdCounter'' of
                                          Some (JNum n) \<Rightarrow> n | _ \<Rightarrow> messageIdCounter s) \<rparr>))"
  by (auto simp: restore_def Let_def split: option.splits js.splits)

theorem restore_cases_witness:
  "JSON_parse ''{\"messages\":[true]}'' = Some (JObj [(''messages'', JArr [JBool True])]) \<and>
   JObj [(''messages'', JArr [JBool True])] \<noteq> JNull \<and>
   restore demo_state ''{\"messages\":[true]}''
     = (True, demo_state\<lparr> messages := [JBool True] \<rparr>) \<and>
   JSON_parse ''{\"messages\":'' = None \<and>
   restore demo_state ''{\"messages\":'' = (False, demo_state)"
proof -
  have p: "JSON_parse ''{\"messages\":[true]}'' = Some (JObj [(''messages'', JArr [JBool True])])"
    by code_simp
  have q: "JSON_parse ''{\"messages\":'' = None"
    by code_simp
  have a: "restore demo_state ''{\"messages\":[true]}''
     = (True, demo_state\<lparr> messages := [JBool True] \<rparr>)"
    using p restore_cases [of demo_state "''{\"messages\":[true]}''"] by simp
  have "fst (restore demo_state ''{\"messages\":'') = False"
    using q restore_cases [of demo_state "''{\"messages\":''"] by blast
  moreover from this have "snd (restore demo_state ''{\"messages\":'') = demo_state"
    using restore_cases [of demo_state "''{\"messages\":''"] by blast
  ultimately have b: "restore demo_state ''{\"messages\":'' = (False, demo_state)"
    by (metis prod.collapse)
  show ?thesis
    using p q a b by simp
qed

text \<open>
  The claim as it stands fails in both directions: the text \<open>null\<close> parses and \<open>restore\<close>
  returns \<open>false\<close>; the text \<open>{"messages":[]}\<close> makes it return \<open>true\<close> and keep the old id
  counter, and on the text \<open>5\<close> it returns \<open>true\<close> and replaces nothing.
\<close>

theorem restore_cases_counterexample:
  "JSON_parse ''null'' = Some JNull \<and>
   restore demo_state ''null'' = (False, demo_state) \<and>
   restore demo_state ''{\"messages\":[]}'' = (True, demo_state\<lparr> messages := [] \<rparr>) \<and>
   messageIdCounter (snd (restore demo_state ''{\"messages\":[]}'')) = Fin (to_safe 2) \<and>
   restore demo_state ''5'' = (True, demo_state)"
proof -
  have a: "JSON_parse ''null'' = Some JNull"
    by code_simp
  have b: "JSON_parse ''{\"messages\":[]}'' = Some (JObj [(''messages'', JArr [])])"
    by code_simp
  have c: "JSON_parse ''5'' = Some (js_int 5)"
    by code_simp
  show ?thesis
    by (simp add: a b c restore_def js_int_def demo_state_def)
qed

section \<open>The relevance score\<close>

text \<open>
  The score as the specification words it: a keyword earns one point for a whole-word
  match, half a point for a substring match, and the relevance is the mean over the
  keywords of length at least 2.
\<close>

definition keyword_points :: "string \<Rightarrow> string \<Rightarrow> rat" where
  "keyword_points t kw =
     (if regex_word_test kw t then 1 else if str_includes t kw then 1 / 2 else 0)"

definition qualifying :: "string list \<Rightarrow> string list" where
  "qualifying kws = filter (\<lambda>k. 2 \<le> length k) kws"

definition relevance_spec :: "string \<Rightarrow> string list \<Rightarrow> rat" where
  "relevance_spec t kws =
     (if qualifying kws = [] then 0
      else sum_list (map (keyword_points t) (qualifying kws)) / of_nat (length (qualifying kws)))"

lemma foldl_score_keyword:
  "foldl (score_keyword t) (m, w) kws =
     (m + sum_list (map (keyword_points t) (qualifying kws)), w + length (qualifying kws))"
  by (induction kws arbitrary: m w)
     (simp_all add: score_keyword_def keyword_points_def qualifying_def)

lemma keyword_points_bounds: "0 \<le> keyword_points t k" "keyword_points t k \<le> 1"
  by (simp_all add: keyword_points_def)

lemma sum_points_bounds:
  "0 \<le> sum_list (map (keyword_points t) ks)"
  "sum_list (map (keyword_points t) ks) \<le> of_nat (length ks)"
proof -
  show "0 \<le> sum_list (map (keyword_points t) ks)"
    by (rule sum_list_nonneg) (auto simp: keyword_points_bounds)
  show "sum_list (map (keyword_points t) ks) \<le> of_nat (length ks)"
  proof (induction ks)
    case Nil
    show ?case by simp
  next
    case (Cons k ks)
    have "keyword_points t k + sum_list (map (keyword_points t) ks) \<le> 1 + of_nat (length ks)"
      by (rule add_mono) (rule keyword_points_bounds, rule Cons.IH)
    then show ?case by simp
  qed
qed

lemma relevance_spec_bounds: "0 \<le> relevance_spec t kws" "relevance_spec t kws \<le> 1"
proof -
  show "0 \<le> relevance_spec t kws"
    by (simp add: relevance_spec_def sum_points_bounds)
  show "relevance_spec t kws \<le> 1"
  proof (cases "qualifying kws = []")
    case True
    then show ?thesis by (simp add: relevance_spec_def)
  next
    case False
    then have "0 < (of_nat (length (qualifying kws)) :: rat)" by simp
    then show ?thesis
      using sum_points_bounds(2) [of t "qualifying kws"] False
      by (simp add: relevance_spec_def pos_divide_le_eq)
  qed
qed

lemma str_includes_length: "str_includes t kw \<Longrightarrow> length kw \<le> length t"
proof (induction t)
  case Nil
  then show ?case by simp
next
  case (Cons c cs)
  from Cons.prems have "take (length kw) (c # cs) = kw \<or> str_includes cs kw" by simp
  then show ?case
  proof
    assume "take (length kw) (c # cs) = kw"
    then have "min (length (c # cs)) (length kw) = length kw"
      by (metis length_take)
    then show ?thesis by linarith
  next
    assume "str_includes cs kw"
    with Cons.IH show ?thesis by simp
  qed
qed

lemma regex_word_test_length: "regex_word_test kw t \<Longrightarrow> length kw \<le> length t"
  by (auto simp: regex_word_test_def matches_at_def list_ex_iff)

lemma keyword_points_short: "length t < length k \<Longrightarrow> keyword_points t k = 0"
  using str_includes_length [of t k] regex_word_test_length [of k t]
  by (auto simp: keyword_points_def)

lemma relevance_spec_short: "length t \<le> 1 \<Longrightarrow> relevance_spec t kws = 0"
proof -
  assume short: "length t \<le> 1"
  have "keyword_points t k = 0" if "k \<in> set (qualifying kws)" for k
    using that short by (intro keyword_points_short) (simp add: qualifying_def)
  then have "map (keyword_points t) (qualifying kws) = map (\<lambda>k. 0) (qualifying kws)"
    by simp
  then have "sum_list (map (keyword_points t) (qualifying kws)) = 0"
    by (simp only: sum_list_0)
  then show ?thesis by (simp add: relevance_spec_def)
qed

lemma calculateRelevance_truthy:
  assumes "\<not> falsy item"
  shows "calculateRelevance item kws = relevance_spec (toLowerCase (itemToSearchText item)) kws"
proof (cases "kws = []")
  case True
  with assms show ?thesis
    by (simp add: calculateRelevance_def relevance_spec_def qualifying_def)
next
  case False
  show ?thesis
  proof (cases "toLowerCase (itemToSearchText item) = []")
    case True
    then have "relevance_spec (toLowerCase (itemToSearchText item)) kws = 0"
      by (simp add: relevance_spec_short)
    with True assms False show ?thesis
      by (simp add: calculateRelevance_def)
  next
    case nonempty: False
    with assms False show ?thesis
      by (simp add: calculateRelevance_def foldl_score_keyword relevance_spec_def Let_def)
  qed
qed

lemma calculateRelevance_falsy: "falsy item \<Longrightarrow> calculateRelevance item kws = 0"
  by (simp add: calculateRelevance_def)


lemma calculateRelevance_bounds:
  "0 \<le> calculateRelevance item kws" "calculateRelevance item kws \<le> 1"
  by (cases "falsy item";
      simp add: calculateRelevance_falsy calculateRelevance_truthy relevance_spec_bounds)+


subsection \<open>Results carry positive scores\<close>








section \<open>Early termination\<close>

text \<open>The list up to and including its first element that satisfies \<open>P\<close>.\<close>

fun take_through :: "('a \<Rightarrow> bool) \<Rightarrow> 'a list \<Rightarrow> 'a list" where
  "take_through P [] = []"
| "take_through P (x # xs) = (if P x then [x] else x # take_through P xs)"

text \<open>The plain scan of one category, and of all categories in their order.\<close>

definition scan_category :: "knowledge_base \<Rightarrow> string list \<Rightarrow> string \<Rightarrow> search_result list" where
  "scan_category kb kws cat =
     (case map_of (kb_data kb) cat of None \<Rightarrow> [] | Some d \<Rightarrow> searchInData d kws (Some cat))"

definition scan_all :: "knowledge_base \<Rightarrow> string list \<Rightarrow> search_result list" where
  "scan_all kb kws = concat (map (scan_category kb kws) (categories kb))"

definition high_confidence :: "knowledge_base \<Rightarrow> search_result \<Rightarrow> bool" where
  "high_confidence kb r = (highConfidenceThreshold kb \<le> relevance r)"

lemma take_through_append:
  "take_through P (xs @ ys) = (if list_ex P xs then take_through P xs else xs @ take_through P ys)"
  by (induction xs) auto

lemma take_through_none: "\<not> list_ex P xs \<Longrightarrow> take_through P xs = xs"
  by (induction xs) auto

lemma list_ex_take_through: "list_ex P (take_through P xs) = list_ex P xs"
  by (induction xs) auto

lemma mset_take_through: "mset (take_through P xs) \<subseteq># mset xs"
  by (induction xs) (auto intro: subset_mset.order_trans)

lemma search_items_opt_off:
  "search_items_opt th False kws cat fld items = (search_items kws cat fld items, False)"
  by (induction items) (simp_all add: Let_def)

lemma search_items_opt_on:
  "search_items_opt th True kws cat fld items =
     (take_through (\<lambda>r. th \<le> relevance r) (search_items kws cat fld items),
      list_ex (\<lambda>r. th \<le> relevance r) (search_items kws cat fld items))"
  by (induction items) (simp_all add: Let_def)

lemma search_nested_opt_off:
  "search_nested_opt th False kws cat kvs = (search_nested kws cat kvs, False)"
  by (induction kvs) (auto simp: search_items_opt_off split: js.splits)

lemma search_nested_opt_on:
  "search_nested_opt th True kws cat kvs =
     (take_through (\<lambda>r. th \<le> relevance r) (search_nested kws cat kvs),
      list_ex (\<lambda>r. th \<le> relevance r) (search_nested kws cat kvs))"
proof (induction kvs)
  case Nil
  show ?case by simp
next
  case (Cons kv kvs)
  obtain key v where kv: "kv = (key, v)" by (cases kv)
  show ?case
  proof (cases "\<exists>items. v = JArr items")
    case True
    then obtain items where v: "v = JArr items" ..
    show ?thesis
      by (simp add: kv v search_items_opt_on Cons.IH take_through_append take_through_none)
  next
    case False
    then show ?thesis
      by (cases v) (simp_all add: kv Cons.IH)
  qed
qed

lemma searchInDataOptimized_off:
  "searchInDataOptimized kb (map_of (kb_data kb) cat) kws (Some cat) False = scan_category kb kws cat"
proof (cases "map_of (kb_data kb) cat")
  case None
  then show ?thesis by (simp add: searchInDataOptimized_def scan_category_def)
next
  case (Some d)
  then show ?thesis
    by (cases d)
       (simp_all add: searchInDataOptimized_def scan_category_def searchInData_def
          search_items_opt_off search_nested_opt_off Let_def)
qed

lemma searchInDataOptimized_on:
  "searchInDataOptimized kb (map_of (kb_data kb) cat) kws (Some cat) True
     = take_through (high_confidence kb) (scan_category kb kws cat)"
proof (cases "map_of (kb_data kb) cat")
  case None
  then show ?thesis by (simp add: searchInDataOptimized_def scan_category_def)
next
  case (Some d)
  have hc: "high_confidence kb = (\<lambda>r. highConfidenceThreshold kb \<le> relevance r)"
    by (simp add: high_confidence_def fun_eq_iff)
  from Some show ?thesis
    by (cases d)
       (simp_all add: searchInDataOptimized_def scan_category_def searchInData_def hc
          search_items_opt_on search_nested_opt_on Let_def)
qed

lemma find_high_iff:
  "(find (\<lambda>r. highConfidenceThreshold kb \<le> relevance r) rs = None) = (\<not> list_ex (high_confidence kb) rs)"
  by (auto simp: find_None_iff list_ex_iff high_confidence_def)

lemma search_loop_off:
  "search_loop kb kws False results cats
     = sort_by_relevance (results @ concat (map (scan_category kb kws) cats))"
  by (induction cats arbitrary: results) (simp_all add: searchInDataOptimized_off Let_def)

lemma search_loop_on:
  "search_loop kb kws True results cats
     = sort_by_relevance (results @ take_through (high_confidence kb) (concat (map (scan_category kb kws) cats)))"
proof (induction cats arbitrary: results)
  case Nil
  show ?case by simp
next
  case (Cons c cats)
  let ?full = "scan_category kb kws c"
  show ?case
  proof (cases "list_ex (high_confidence kb) ?full")
    case True
    then have "take_through (high_confidence kb) ?full \<noteq> []"
      by (cases ?full) auto
    with True show ?thesis
      by (simp add: searchInDataOptimized_on find_high_iff list_ex_take_through
            take_through_append Let_def)
  next
    case False
    then show ?thesis
      by (simp add: searchInDataOptimized_on find_high_iff list_ex_take_through
            take_through_append take_through_none Cons.IH Let_def)
  qed
qed


lemma search_eq:
  "search kb keywords opt =
     (if normalizeKeywords keywords = [] then []
      else sort_by_relevance
             (if opt = Some False then scan_all kb (normalizeKeywords keywords)
              else take_through (high_confidence kb) (scan_all kb (normalizeKeywords keywords))))"
  by (simp add: search_def Let_def search_loop_off search_loop_on scan_all_def)




lemma sort_by_relevance_sorted:
  "sorted_wrt (\<lambda>a b. relevance b \<le> relevance a) (sort_by_relevance rs)"
proof -
  have "sorted (map (\<lambda>r. - relevance r) (sort_key (\<lambda>r. - relevance r) rs))"
    by (rule sorted_sort_key)
  then show ?thesis
    by (simp add: sort_by_relevance_def sorted_map)
qed

lemma mean_insert:
  fixes S p :: rat
  assumes "0 < n"
  shows "(S / of_nat n \<le> (S + p) / (of_nat n + 1)) = (S / of_nat n \<le> p)"
proof -
  have n: "0 < (of_nat n :: rat)" using assms by simp
  then have n1: "0 < (of_nat n + 1 :: rat)" by simp
  have "(S / of_nat n \<le> (S + p) / (of_nat n + 1)) = (S * (of_nat n + 1) \<le> (S + p) * of_nat n)"
    using n n1 by (simp add: frac_le_eq divide_le_0_iff mult.commute field_simps)
  also have "\<dots> = (S \<le> p * of_nat n)"
    by (simp add: algebra_simps)
  also have "\<dots> = (S / of_nat n \<le> p)"
    using n by (simp add: pos_divide_le_eq)
  finally show ?thesis .
qed

lemma qualifying_insert:
  "qualifying (kws1 @ k # kws2) =
     (if 2 \<le> length k then qualifying kws1 @ k # qualifying kws2 else qualifying (kws1 @ kws2))"
  by (simp add: qualifying_def)

lemma relevance_spec_insert:
  assumes "2 \<le> length k"
  shows "(relevance_spec t (kws1 @ kws2) \<le> relevance_spec t (kws1 @ k # kws2))
           = (relevance_spec t (kws1 @ kws2) \<le> keyword_points t k)"
proof (cases "qualifying (kws1 @ kws2) = []")
  case True
  then have "qualifying kws1 = []" "qualifying kws2 = []"
    by (simp_all add: qualifying_def)
  with assms show ?thesis
    by (simp add: relevance_spec_def qualifying_insert keyword_points_bounds)
next
  case False
  let ?S = "sum_list (map (keyword_points t) (qualifying (kws1 @ kws2)))"
  let ?n = "length (qualifying (kws1 @ kws2))"
  have n: "0 < ?n" using False by simp
  have old: "relevance_spec t (kws1 @ kws2) = ?S / of_nat ?n"
    using False by (simp add: relevance_spec_def)
  have new: "relevance_spec t (kws1 @ k # kws2) = (?S + keyword_points t k) / (of_nat ?n + 1)"
    using assms by (simp add: relevance_spec_def qualifying_insert qualifying_def add.commute add.left_commute)
  show ?thesis
    unfolding old new using n by (rule mean_insert)
qed

lemma calculateRelevance_insert:
  assumes "2 \<le> length k"
  shows "(calculateRelevance item (kws1 @ kws2) \<le> calculateRelevance item (kws1 @ k # kws2))
           = (calculateRelevance item (kws1 @ kws2) \<le> keyword_points (toLowerCase (itemToSearchText item)) k)"
proof (cases "falsy item")
  case True
  then show ?thesis
    by (simp add: calculateRelevance_falsy keyword_points_bounds)
next
  case False
  then show ?thesis
    using assms by (simp add: calculateRelevance_truthy relevance_spec_insert)
qed

lemma calculateRelevance_insert_short:
  "\<not> 2 \<le> length k \<Longrightarrow> calculateRelevance item (kws1 @ k # kws2) = calculateRelevance item (kws1 @ kws2)"
  by (cases "falsy item")
     (simp_all add: calculateRelevance_falsy calculateRelevance_truthy relevance_spec_def qualifying_insert)

definition demo_kb :: knowledge_base where
  "demo_kb = new_KnowledgeBase
     [(''skills'', JObj [(''automation'', JArr [JStr ''Playwright'', JStr ''Selenium'']),
                         (''cloud'', JArr [JStr ''AWS''])]),
      (''projects'', JArr [JObj [(''name'', JStr ''Kill Switch''), (''technologies'', JArr [JStr ''Python''])],
                           JObj [(''name'', JStr ''Playwright Runner'')]])] None"


definition demo_item :: js where
  "demo_item = JStr ''Playwright Testing''"




text \<open>
  Claim C4 (search ordering). The list \<open>search\<close> returns is sorted by descending
  relevance, with early termination or without: a later result never has a higher
  relevance than an earlier one.
\<close>

theorem search_sorted:
  "sorted_wrt (\<lambda>a b. relevance b \<le> relevance a) (search kb keywords opt) \<and>
   (\<forall>i j. i < j \<and> j < length (search kb keywords opt) \<longrightarrow>
      relevance (search kb keywords opt ! j) \<le> relevance (search kb keywords opt ! i))"
proof -
  have s: "sorted_wrt (\<lambda>a b. relevance b \<le> relevance a) (search kb keywords opt)"
    by (simp add: search_eq sort_by_relevance_sorted)
  then show ?thesis
    by (auto simp: sorted_wrt_iff_nth_less)
qed

theorem search_sorted_witness:
  "length (search demo_kb (Some (JStr ''playwright python'')) (Some False)) = 4 \<and>
   (0::nat) < 3 \<and>
   relevance (search demo_kb (Some (JStr ''playwright python'')) (Some False) ! 3)
     \<le> relevance (search demo_kb (Some (JStr ''playwright python'')) (Some False) ! 0)"
proof -
  have len: "length (search demo_kb (Some (JStr ''playwright python'')) (Some False)) = 4"
    by code_simp
  show ?thesis
    using len search_sorted [of demo_kb "Some (JStr ''playwright python'')" "Some False"]
    by simp
qed

text \<open>
  Claim C5 (early termination), as amended. Without early termination \<open>search\<close> sorts the
  plain scan of all categories. With it, \<open>search\<close> sorts the part of that scan up to and
  including the first result that reaches the high-confidence threshold; so its results
  are among those of the full search, and the two searches agree whenever no result
  of the full search reaches the threshold.
\<close>

theorem search_early_termination:
  "search kb keywords (Some False) =
     (if normalizeKeywords keywords = [] then []
      else sort_by_relevance (scan_all kb (normalizeKeywords keywords))) \<and>
   (opt \<noteq> Some False \<longrightarrow>
      search kb keywords opt =
        (if normalizeKeywords keywords = [] then []
         else sort_by_relevance
                (take_through (high_confidence kb) (scan_all kb (normalizeKeywords keywords))))) \<and>
   mset (search kb keywords opt) \<subseteq># mset (search kb keywords (Some False)) \<and>
   (\<not> list_ex (high_confidence kb) (search kb keywords (Some False)) \<longrightarrow>
      search kb keywords opt = search kb keywords (Some False))"
proof -
  let ?all = "scan_all kb (normalizeKeywords keywords)"
  have sub: "mset (search kb keywords opt) \<subseteq># mset (search kb keywords (Some False))"
    by (simp add: search_eq sort_by_relevance_def mset_take_through)
  have same: "search kb keywords opt = search kb keywords (Some False)"
    if "\<not> list_ex (high_confidence kb) (search kb keywords (Some False))"
  proof (cases "normalizeKeywords keywords = []")
    case True
    then show ?thesis by (simp add: search_eq)
  next
    case False
    with that have "\<not> list_ex (high_confidence kb) ?all"
      by (simp add: search_eq sort_by_relevance_def list_ex_iff)
    then have "take_through (high_confidence kb) ?all = ?all"
      by (rule take_through_none)
    then show ?thesis by (simp add: search_eq)
  qed
  show ?thesis
    using sub same by (simp add: search_eq)
qed

theorem search_early_termination_witness:
  "None \<noteq> Some False \<and>
   \<not> list_ex (high_confidence demo_kb) (search demo_kb (Some (JStr ''selenium python'')) (Some False)) \<and>
   search demo_kb (Some (JStr ''selenium python'')) None
     = search demo_kb (Some (JStr ''selenium python'')) (Some False) \<and>
   length (search demo_kb (Some (JStr ''selenium python'')) (Some False)) = 3 \<and>
   mset (search demo_kb (Some (JStr ''playwright'')) None)
     \<subseteq># mset (search demo_kb (Some (JStr ''playwright'')) (Some False))"
proof -
  have a: "\<not> list_ex (high_confidence demo_kb) (search demo_kb (Some (JStr ''selenium python'')) (Some False))"
    by code_simp
  have b: "length (search demo_kb (Some (JStr ''selenium python'')) (Some False)) = 3"
    by code_simp
  have c: "search demo_kb (Some (JStr ''selenium python'')) None
     = search demo_kb (Some (JStr ''selenium python'')) (Some False)"
    using a search_early_termination [of demo_kb "Some (JStr ''selenium python'')" None]
    by blast
  have d: "mset (search demo_kb (Some (JStr ''playwright'')) None)
     \<subseteq># mset (search demo_kb (Some (JStr ''playwright'')) (Some False))"
    using search_early_termination [of demo_kb "Some (JStr ''playwright'')" None]
    by blast
  have e: "(None :: bool option) \<noteq> Some False" by simp
  show ?thesis
    using a b c d e by blast
qed

text \<open>
  The claim as it stands fails on a knowledge base where a later category holds a match
  too: the early exit returns one result, the full scan three.
\<close>

theorem search_early_termination_counterexample:
  "length (search demo_kb (Some (JStr ''playwright'')) None) = 1 \<and>
   length (search demo_kb (Some (JStr ''playwright'')) (Some False)) = 3"
  by code_simp

text \<open>
  Claim C6 (monotonicity), as amended. Inserting a keyword that matches the item as a
  whole word never lowers the relevance. Inserting a keyword of length at least 2 that
  matches only as a substring keeps the relevance from falling exactly when the
  relevance before was at most one half.
\<close>

theorem relevance_monotone:
  "(regex_word_test k (toLowerCase (itemToSearchText item)) \<longrightarrow>
      calculateRelevance item (kws1 @ kws2) \<le> calculateRelevance item (kws1 @ k # kws2)) \<and>
   (\<not> regex_word_test k (toLowerCase (itemToSearchText item)) \<and>
    str_includes (toLowerCase (itemToSearchText item)) k \<and> 2 \<le> length k \<longrightarrow>
      (calculateRelevance item (kws1 @ kws2) \<le> calculateRelevance item (kws1 @ k # kws2))
        = (calculateRelevance item (kws1 @ kws2) \<le> 1 / 2))"
proof (cases "2 \<le> length k")
  case True
  have "calculateRelevance item (kws1 @ kws2) \<le> 1"
    by (rule calculateRelevance_bounds)
  then show ?thesis
    using True by (simp add: calculateRelevance_insert keyword_points_def)
next
  case False
  then show ?thesis
    by (simp add: calculateRelevance_insert_short)
qed

theorem relevance_monotone_witness:
  "regex_word_test ''playwright'' (toLowerCase (itemToSearchText demo_item)) \<and>
   calculateRelevance demo_item ([''wright''] @ []) \<le> calculateRelevance demo_item ([''wright''] @ ''playwright'' # []) \<and>
   calculateRelevance demo_item ([''wright''] @ ''playwright'' # []) = 3 / 4 \<and>
   \<not> regex_word_test ''test'' (toLowerCase (itemToSearchText demo_item)) \<and>
   str_includes (toLowerCase (itemToSearchText demo_item)) ''test'' \<and> 2 \<le> length ''test'' \<and>
   calculateRelevance demo_item ([''wright''] @ []) \<le> 1 / 2 \<and>
   calculateRelevance demo_item ([''wright''] @ []) \<le> calculateRelevance demo_item ([''wright''] @ ''test'' # [])"
proof -
  have a: "regex_word_test ''playwright'' (toLowerCase (itemToSearchText demo_item))"
    by code_simp
  have b: "\<not> regex_word_test ''test'' (toLowerCase (itemToSearchText demo_item))"
    by code_simp
  have c: "str_includes (toLowerCase (itemToSearchText demo_item)) ''test''"
    by code_simp
  have d: "calculateRelevance demo_item ([''wright''] @ []) \<le> 1 / 2"
    by code_simp
  have e: "calculateRelevance demo_item ([''wright''] @ ''playwright'' # []) = 3 / 4"
    by code_simp
  have l: "2 \<le> length ''test''" by simp
  have f: "calculateRelevance demo_item ([''wright''] @ []) \<le> calculateRelevance demo_item ([''wright''] @ ''playwright'' # [])"
    using a relevance_monotone [of "''playwright''" demo_item "[''wright'']" "[]"]
    by blast
  have g: "calculateRelevance demo_item ([''wright''] @ []) \<le> calculateRelevance demo_item ([''wright''] @ ''test'' # [])"
    using b c d l relevance_monotone [of "''test''" demo_item "[''wright'']" "[]"]
    by blast
  show ?thesis
    using a b c d e f g l by blast
qed

text \<open>
  The claim as it stands fails when the keywords so far all match as whole words and
  the new one matches only as a substring: the mean drops from 1 to 3/4.
\<close>

theorem relevance_monotone_counterexample:
  "str_includes (toLowerCase (itemToSearchText demo_item)) ''test'' \<and>
   calculateRelevance demo_item ([''testing''] @ [''test'']) < calculateRelevance demo_item [''testing'']"
  by code_simp


section \<open>Intent detection returns the first highest score\<close>

lemma max_step_loop:
  assumes "foldl max_step (m0, d0) sc = (m, d)"
  shows "(\<forall>j<length sc. snd (sc ! j) \<le> m) \<and>
         ((m = m0 \<and> d = d0) \<or>
          (\<exists>k<length sc. sc ! k = (d, m) \<and> m0 < m \<and> (\<forall>j<k. snd (sc ! j) < m)))"
  using assms
proof (induction sc arbitrary: m0 d0)
  case Nil
  then show ?case by simp
next
  case (Cons e sc)
  obtain i s where e: "e = (i, s)" by (cases e)
  show ?case
  proof (cases "s > m0")
    case True
    then have "max_step (m0, d0) e = (s, i)"
      by (simp add: max_step_def e)
    with Cons.prems have run: "foldl max_step (s, i) sc = (m, d)"
      by simp
    from Cons.IH [OF run] have all: "\<forall>j<length sc. snd (sc ! j) \<le> m"
      and alt: "(m = s \<and> d = i) \<or>
                (\<exists>k<length sc. sc ! k = (d, m) \<and> s < m \<and> (\<forall>j<k. snd (sc ! j) < m))"
      by blast+
    from alt have sm: "s \<le> m" by auto
    have bound: "\<forall>j<length (e # sc). snd ((e # sc) ! j) \<le> m"
      using all sm by (auto simp: e nth_Cons split: nat.splits)
    from alt have "\<exists>k<length (e # sc). (e # sc) ! k = (d, m) \<and> m0 < m \<and>
                      (\<forall>j<k. snd ((e # sc) ! j) < m)"
    proof
      assume "m = s \<and> d = i"
      with True show ?thesis
        by (intro exI [of _ 0]) (simp add: e)
    next
      assume "\<exists>k<length sc. sc ! k = (d, m) \<and> s < m \<and> (\<forall>j<k. snd (sc ! j) < m)"
      then obtain k where k: "k < length sc" "sc ! k = (d, m)" "s < m" "\<forall>j<k. snd (sc ! j) < m"
        by blast
      with True show ?thesis
        by (intro exI [of _ "Suc k"]) (auto simp: e nth_Cons split: nat.splits)
    qed
    with bound show ?thesis by blast
  next
    case False
    then have "max_step (m0, d0) e = (m0, d0)"
      by (simp add: max_step_def e)
    with Cons.prems have run: "foldl max_step (m0, d0) sc = (m, d)"
      by simp
    from Cons.IH [OF run] have all: "\<forall>j<length sc. snd (sc ! j) \<le> m"
      and alt: "(m = m0 \<and> d = d0) \<or>
                (\<exists>k<length sc. sc ! k = (d, m) \<and> m0 < m \<and> (\<forall>j<k. snd (sc ! j) < m))"
      by blast+
    from alt have mm: "m0 \<le> m" by auto
    have bound: "\<forall>j<length (e # sc). snd ((e # sc) ! j) \<le> m"
      using all mm False by (auto simp: e nth_Cons split: nat.splits)
    from alt have "(m = m0 \<and> d = d0) \<or>
                   (\<exists>k<length (e # sc). (e # sc) ! k = (d, m) \<and> m0 < m \<and>
                      (\<forall>j<k. snd ((e # sc) ! j) < m))"
    proof
      assume "m = m0 \<and> d = d0"
      then show ?thesis by blast
    next
      assume "\<exists>k<length sc. sc ! k = (d, m) \<and> m0 < m \<and> (\<forall>j<k. snd (sc ! j) < m)"
      then obtain k where k: "k < length sc" "sc ! k = (d, m)" "m0 < m" "\<forall>j<k. snd (sc ! j) < m"
        by blast
      have "\<exists>k'<length (e # sc). (e # sc) ! k' = (d, m) \<and> m0 < m \<and>
                      (\<forall>j<k'. snd ((e # sc) ! j) < m)"
        using k False by (intro exI [of _ "Suc k"]) (auto simp: e nth_Cons split: nat.splits)
      then show ?thesis by blast
    qed
    with bound show ?thesis by blast
  qed
qed

lemma intent_score_empty_query:
  assumes "[] \<notin> set (fst ps)" "[] \<notin> set (snd ps)"
  shows "intent_score [] ps = 0"
proof -
  obtain high medium where ps: "ps = (high, medium)" by (cases ps)
  have h: "[] \<notin> set hs \<Longrightarrow> foldl (\<lambda>score pattern. score + high_score [] pattern) a hs = a" for hs a
    by (induction hs arbitrary: a)
       (auto simp: high_score_def regex_word_test_def matches_at_def)
  have m: "[] \<notin> set ms \<Longrightarrow> foldl (\<lambda>score pattern. score + medium_score [] pattern) a ms = a" for ms a
    by (induction ms arbitrary: a)
       (auto simp: medium_score_def regex_word_test_def matches_at_def)
  show ?thesis
    using assms by (simp add: ps intent_score_def h m)
qed

lemma detectIntent_with_max:
  assumes "q \<noteq> []"
  shows "((\<forall>j<length (intent_scores table (trim (toLowerCase q))).
             snd (intent_scores table (trim (toLowerCase q)) ! j) < 2)
          \<longrightarrow> detectIntent_with table q = ''general'') \<and>
         ((\<exists>j<length (intent_scores table (trim (toLowerCase q))).
             2 \<le> snd (intent_scores table (trim (toLowerCase q)) ! j))
          \<longrightarrow> (\<exists>k<length (intent_scores table (trim (toLowerCase q))).
                 detectIntent_with table q = fst (intent_scores table (trim (toLowerCase q)) ! k) \<and>
                 (\<forall>j<length (intent_scores table (trim (toLowerCase q))).
                     snd (intent_scores table (trim (toLowerCase q)) ! j)
                       \<le> snd (intent_scores table (trim (toLowerCase q)) ! k)) \<and>
                 (\<forall>j<k. snd (intent_scores table (trim (toLowerCase q)) ! j)
                       < snd (intent_scores table (trim (toLowerCase q)) ! k))))"
proof -
  let ?sc = "intent_scores table (trim (toLowerCase q))"
  obtain m d where run: "foldl max_step (0, ''general'') ?sc = (m, d)"
    by (cases "foldl max_step (0, ''general'') ?sc")
  have res: "detectIntent_with table q = (if m < 2 then ''general'' else d)"
    using assms run by (simp add: detectIntent_with_def Let_def)
  from max_step_loop [OF run] have all: "\<forall>j<length ?sc. snd (?sc ! j) \<le> m"
    and alt: "(m = 0 \<and> d = ''general'') \<or>
              (\<exists>k<length ?sc. ?sc ! k = (d, m) \<and> 0 < m \<and> (\<forall>j<k. snd (?sc ! j) < m))"
    by blast+
  have low: "detectIntent_with table q = ''general''" if "\<forall>j<length ?sc. snd (?sc ! j) < 2"
  proof -
    from alt have "m < 2"
    proof
      assume "m = 0 \<and> d = ''general''"
      then show ?thesis by simp
    next
      assume "\<exists>k<length ?sc. ?sc ! k = (d, m) \<and> 0 < m \<and> (\<forall>j<k. snd (?sc ! j) < m)"
      then obtain k where "k < length ?sc" "?sc ! k = (d, m)" by blast
      with that show ?thesis by (metis snd_conv)
    qed
    with res show ?thesis by simp
  qed
  have high: "\<exists>k<length ?sc. detectIntent_with table q = fst (?sc ! k) \<and>
                 (\<forall>j<length ?sc. snd (?sc ! j) \<le> snd (?sc ! k)) \<and>
                 (\<forall>j<k. snd (?sc ! j) < snd (?sc ! k))"
    if "\<exists>j<length ?sc. 2 \<le> snd (?sc ! j)"
  proof -
    from that all have m2: "2 \<le> m" by force
    with alt obtain k where k: "k < length ?sc" "?sc ! k = (d, m)" "\<forall>j<k. snd (?sc ! j) < m"
      by auto
    from m2 res have "detectIntent_with table q = d" by simp
    with k all show ?thesis
      by (intro exI [of _ k]) simp
  qed
  show ?thesis
    using low high by blast
qed


text \<open>The scores \<open>detectIntent\<close> computes for a query, in iteration order.\<close>

definition query_scores :: "string \<Rightarrow> (string \<times> int) list" where
  "query_scores q = intent_scores intentPatterns (trim (toLowerCase q))"

lemma intentPatterns_nonempty:
  "list_all (\<lambda>entry. [] \<notin> set (fst (snd entry)) \<and> [] \<notin> set (snd (snd entry))) intentPatterns"
  by (simp add: intentPatterns_def)

lemma query_scores_empty: "j < length (query_scores []) \<Longrightarrow> snd (query_scores [] ! j) = 0"
proof -
  assume j: "j < length (query_scores [])"
  then have "intentPatterns ! j \<in> set intentPatterns"
    by (simp add: query_scores_def intent_scores_def)
  with intentPatterns_nonempty
  have "[] \<notin> set (fst (snd (intentPatterns ! j)))" "[] \<notin> set (snd (snd (intentPatterns ! j)))"
    by (auto simp: list_all_iff)
  then have "intent_score [] (snd (intentPatterns ! j)) = 0"
    by (rule intent_score_empty_query)
  with j show ?thesis
    by (simp add: query_scores_def intent_scores_def toLowerCase_def trim_def)
qed

text \<open>The loops that add the weights are sums.\<close>

lemma foldl_add_sum_list:
  "foldl (\<lambda>score pattern. score + f pattern) a ps = a + sum_list (map f ps)"
  for a :: int
  by (induction ps arbitrary: a) simp_all

lemma intent_score_sum:
  "intent_score nq (high, medium) =
     sum_list (map (\<lambda>pattern. if str_includes nq pattern then 5
                               else if regex_word_test pattern nq then 4 else 0) high) +
     sum_list (map (\<lambda>pattern. if regex_word_test pattern nq then 2
                               else if str_includes nq pattern then 1 else 0) medium)"
proof -
  have h: "high_score nq = (\<lambda>pattern. if str_includes nq pattern then 5
                               else if regex_word_test pattern nq then 4 else 0)"
    by (rule ext) (simp add: high_score_def)
  have m: "medium_score nq = (\<lambda>pattern. if regex_word_test pattern nq then 2
                               else if str_includes nq pattern then 1 else 0)"
    by (rule ext) (simp add: medium_score_def)
  have "intent_score nq (high, medium)
          = sum_list (map (high_score nq) high) + sum_list (map (medium_score nq) medium)"
    by (simp add: intent_score_def foldl_add_sum_list)
  then show ?thesis
    by (simp only: h m)
qed

lemma query_scores_sum:
  "query_scores q =
     map (\<lambda>(intent, high, medium).
            (intent,
             sum_list (map (\<lambda>pattern. if str_includes (trim (toLowerCase q)) pattern then 5
                                       else if regex_word_test pattern (trim (toLowerCase q)) then 4
                                       else 0) high) +
             sum_list (map (\<lambda>pattern. if regex_word_test pattern (trim (toLowerCase q)) then 2
                                       else if str_includes (trim (toLowerCase q)) pattern then 1
                                       else 0) medium)))
       intentPatterns"
  unfolding query_scores_def intent_scores_def
  by (intro map_cong refl) (auto simp: intent_score_sum)

lemma detectIntent_first_highest:
  "((\<forall>j<length (query_scores q). snd (query_scores q ! j) < 2) \<longrightarrow> detectIntent q = ''general'') \<and>
   ((\<exists>j<length (query_scores q). 2 \<le> snd (query_scores q ! j)) \<longrightarrow>
      (\<exists>k<length (query_scores q).
          detectIntent q = fst (query_scores q ! k) \<and>
          (\<forall>j<length (query_scores q). snd (query_scores q ! j) \<le> snd (query_scores q ! k)) \<and>
          (\<forall>j<k. snd (query_scores q ! j) < snd (query_scores q ! k))))"
proof (cases "q = []")
  case True
  have "detectIntent [] = ''general''"
    by (simp add: detectIntent_def detectIntent_with_def)
  moreover have "\<not> (\<exists>j<length (query_scores []). 2 \<le> snd (query_scores [] ! j))"
    using query_scores_empty by auto
  ultimately show ?thesis
    using True by blast
next
  case False
  then show ?thesis
    unfolding query_scores_def detectIntent_def by (rule detectIntent_with_max)
qed

text \<open>The position of the first highest score is determined by the scores.\<close>

lemma first_highest_unique:
  fixes sc :: "(string \<times> int) list"
  assumes "k < length sc" "\<forall>j<length sc. snd (sc ! j) \<le> snd (sc ! k)" "\<forall>j<k. snd (sc ! j) < snd (sc ! k)"
    and "k' < length sc" "\<forall>j<length sc. snd (sc ! j) \<le> snd (sc ! k')" "\<forall>j<k'. snd (sc ! j) < snd (sc ! k')"
  shows "k' = k"
proof (rule ccontr)
  assume "k' \<noteq> k"
  then consider "k' < k" | "k < k'" by linarith
  then show False
  proof cases
    case 1
    with assms(3) have "snd (sc ! k') < snd (sc ! k)" by blast
    moreover from assms(5) assms(1) have "snd (sc ! k) \<le> snd (sc ! k')" by blast
    ultimately show False by simp
  next
    case 2
    with assms(6) have "snd (sc ! k) < snd (sc ! k')" by blast
    moreover from assms(2) assms(4) have "snd (sc ! k') \<le> snd (sc ! k)" by blast
    ultimately show False by simp
  qed
qed

text \<open>
  Claim C2 (intent detection). The score of a category for a query is the sum over its
  high patterns of 5 for a pattern that is a substring of the normalized query, else 4
  for one that matches as a whole word, plus the sum over its medium patterns of 2 for
  a whole-word match, else 1 for a substring match. When every category scores below 2
  the intent is \<open>general\<close>. Otherwise \<open>detectIntent\<close> returns a category whose score no
  other category exceeds and which every category earlier in the iteration order stays
  strictly below: the first category with the highest score.
\<close>

theorem detectIntent_highest:
  "query_scores q =
     map (\<lambda>(intent, high, medium).
            (intent,
             sum_list (map (\<lambda>pattern. if str_includes (trim (toLowerCase q)) pattern then 5
                                       else if regex_word_test pattern (trim (toLowerCase q)) then 4
                                       else 0) high) +
             sum_list (map (\<lambda>pattern. if regex_word_test pattern (trim (toLowerCase q)) then 2
                                       else if str_includes (trim (toLowerCase q)) pattern then 1
                                       else 0) medium)))
       intentPatterns \<and>
   ((\<forall>j<length (query_scores q). snd (query_scores q ! j) < 2) \<longrightarrow> detectIntent q = ''general'') \<and>
   ((\<exists>j<length (query_scores q). 2 \<le> snd (query_scores q ! j)) \<longrightarrow>
      (\<exists>k<length (query_scores q).
          detectIntent q = fst (query_scores q ! k) \<and>
          (\<forall>j<length (query_scores q). snd (query_scores q ! j) \<le> snd (query_scores q ! k)) \<and>
          (\<forall>j<k. snd (query_scores q ! j) < snd (query_scores q ! k))))"
  using query_scores_sum [of q] detectIntent_first_highest [of q] by (rule conjI)

theorem detectIntent_highest_witness:
  "query_scores ''awards'' =
     [(''experience'', 0), (''skills'', 0), (''projects'', 0), (''awards'', 10), (''contact'', 0),
      (''certifications'', 0), (''personal'', 0)] \<and>
   detectIntent ''awards'' = ''awards'' \<and>
   query_scores ''job tech'' =
     [(''experience'', 2), (''skills'', 2), (''projects'', 0), (''awards'', 0), (''contact'', 0),
      (''certifications'', 0), (''personal'', 0)] \<and>
   detectIntent ''job tech'' = ''experience'' \<and>
   query_scores ''hm'' =
     [(''experience'', 0), (''skills'', 0), (''projects'', 0), (''awards'', 0), (''contact'', 0),
      (''certifications'', 0), (''personal'', 0)] \<and>
   detectIntent ''hm'' = ''general''"
proof -
  have sc1: "map (\<lambda>(intent, high, medium).
            (intent,
             sum_list (map (\<lambda>pattern. if str_includes (trim (toLowerCase ''awards'')) pattern then 5
                                       else if regex_word_test pattern (trim (toLowerCase ''awards'')) then 4
                                       else 0) high) +
             sum_list (map (\<lambda>pattern. if regex_word_test pattern (trim (toLowerCase ''awards'')) then 2
                                       else if str_includes (trim (toLowerCase ''awards'')) pattern then 1
                                       else 0) medium)))
       intentPatterns =
     [(''experience'', 0), (''skills'', 0), (''projects'', 0), (''awards'', 10 :: int), (''contact'', 0),
      (''certifications'', 0), (''personal'', 0)]"
    by code_simp
  have sc2: "map (\<lambda>(intent, high, medium).
            (intent,
             sum_list (map (\<lambda>pattern. if str_includes (trim (toLowerCase ''job tech'')) pattern then 5
                                       else if regex_word_test pattern (trim (toLowerCase ''job tech'')) then 4
                                       else 0) high) +
             sum_list (map (\<lambda>pattern. if regex_word_test pattern (trim (toLowerCase ''job tech'')) then 2
                                       else if str_includes (trim (toLowerCase ''job tech'')) pattern then 1
                                       else 0) medium)))
       intentPatterns =
     [(''experience'', 2), (''skills'', 2), (''projects'', 0), (''awards'', 0 :: int), (''contact'', 0),
      (''certifications'', 0), (''personal'', 0)]"
    by code_simp
  have sc3: "map (\<lambda>(intent, high, medium).
            (intent,
             sum_list (map (\<lambda>pattern. if str_includes (trim (toLowerCase ''hm'')) pattern then 5
                                       else if regex_word_test pattern (trim (toLowerCase ''hm'')) then 4
                                       else 0) high) +
             sum_list (map (\<lambda>pattern. if regex_word_test pattern (trim (toLowerCase ''hm'')) then 2
                                       else if str_includes (trim (toLowerCase ''hm'')) pattern then 1
                                       else 0) medium)))
       intentPatterns =
     [(''experience'', 0), (''skills'', 0), (''projects'', 0), (''awards'', 0 :: int), (''contact'', 0),
      (''certifications'', 0), (''personal'', 0)]"
    by code_simp
  have q1: "query_scores ''awards'' =
     [(''experience'', 0), (''skills'', 0), (''projects'', 0), (''awards'', 10), (''contact'', 0),
      (''certifications'', 0), (''personal'', 0)]"
    using conjunct1 [OF detectIntent_highest [of "''awards''"]] by (simp only: sc1)
  have q2: "query_scores ''job tech'' =
     [(''experience'', 2), (''skills'', 2), (''projects'', 0), (''awards'', 0), (''contact'', 0),
      (''certifications'', 0), (''personal'', 0)]"
    using conjunct1 [OF detectIntent_highest [of "''job tech''"]] by (simp only: sc2)
  have q3: "query_scores ''hm'' =
     [(''experience'', 0), (''skills'', 0), (''projects'', 0), (''awards'', 0), (''contact'', 0),
      (''certifications'', 0), (''personal'', 0)]"
    using conjunct1 [OF detectIntent_highest [of "''hm''"]] by (simp only: sc3)
  have first: "detectIntent q = fst (sc ! k)"
    if "query_scores q = sc" "k < length sc" "\<forall>j<length sc. snd (sc ! j) \<le> snd (sc ! k)"
       "\<forall>j<k. snd (sc ! j) < snd (sc ! k)" "2 \<le> snd (sc ! k)" for q sc k
  proof -
    from that(1,2,5) have "\<exists>j<length (query_scores q). 2 \<le> snd (query_scores q ! j)"
      by blast
    with conjunct2 [OF conjunct2 [OF detectIntent_highest [of q]]] that(1) obtain k' where k':
      "k' < length sc" "detectIntent q = fst (sc ! k')"
      "\<forall>j<length sc. snd (sc ! j) \<le> snd (sc ! k')" "\<forall>j<k'. snd (sc ! j) < snd (sc ! k')"
      by blast
    have "k' = k"
      using that(2,3,4) k'(1,3,4) by (rule first_highest_unique)
    with k'(2) show ?thesis by simp
  qed
  have "detectIntent ''awards'' =
          fst ([(''experience'', 0), (''skills'', 0), (''projects'', 0), (''awards'', 10 :: int), (''contact'', 0),
                (''certifications'', 0), (''personal'', 0)] ! 3)"
    by (rule first [OF q1]) (auto simp: nth_Cons less_Suc_eq_0_disj split: nat.splits)
  then have a: "detectIntent ''awards'' = ''awards''"
    by simp
  have "detectIntent ''job tech'' =
          fst ([(''experience'', 2), (''skills'', 2), (''projects'', 0), (''awards'', 0 :: int), (''contact'', 0),
                (''certifications'', 0), (''personal'', 0)] ! 0)"
    by (rule first [OF q2]) (auto simp: nth_Cons less_Suc_eq_0_disj split: nat.splits)
  then have b: "detectIntent ''job tech'' = ''experience''"
    by simp
  have "\<forall>j<length (query_scores ''hm''). snd (query_scores ''hm'' ! j) < 2"
    by (auto simp: q3 nth_Cons less_Suc_eq_0_disj split: nat.splits)
  with conjunct1 [OF conjunct2 [OF detectIntent_highest [of "''hm''"]]]
  have c: "detectIntent ''hm'' = ''general''"
    by blast
  show ?thesis
    using q1 a q2 b q3 c by blast
qed

end
